theory Spec2Isabelle
  imports Main "HOL-Library.AList"
begin

section \<open>Symbols, tokens and parser nodes\<close>

text \<open>
  The embedding follows \<^verbatim>\<open>brutus/ebnf.py\<close>. The module \<^verbatim>\<open>brutus/tokenizer.py\<close>
  (classes \<^verbatim>\<open>Symbol\<close>, \<^verbatim>\<open>Token\<close>, \<^verbatim>\<open>Tokenizer\<close>, \<^verbatim>\<open>QTerminal\<close>) is not part of the
  sources; what the parser needs of it is modelled here as data, and the lexer itself is
  a parameter of the grammar compiler.
\<close>

text \<open>
  Modelled from the spec: the class \<^verbatim>\<open>Symbol\<close> of the absent tokenizer module. A symbol is
  identified by its name and its kind; the symbols a tokenizer registers (\<^verbatim>\<open>QTerminal\<close>)
  are terminal.
\<close>

datatype symbol =
    EBNFTerminalSymbol (name_of: string)
  | EBNFNonTerminalSymbol (name_of: string)
  | QTerminal (name_of: string)

fun is_terminal :: "symbol \<Rightarrow> bool" where
  "is_terminal (EBNFTerminalSymbol n) = True"
| "is_terminal (EBNFNonTerminalSymbol n) = False"
| "is_terminal (QTerminal n) = True"

datatype token_class = Token | EBNFToken

text \<open>
  Modelled from the spec: the class \<^verbatim>\<open>Token\<close>, a record \<^verbatim>\<open>(symbol, lexeme, start, end)\<close>
  whose symbol the builder reassigns. \<open>cls\<close> is the Python class of the object
  (\<^verbatim>\<open>match_rule\<close> tests it with \<^verbatim>\<open>isinstance\<close>); \<open>finish\<close> is the field \<^verbatim>\<open>end\<close>.
\<close>

record token =
  cls :: token_class
  symbol :: symbol
  lexeme :: string
  start :: nat
  finish :: nat

datatype ebnf_node = EBNFNode (token: token) (children: "ebnf_node list")

definition STARTREPEAT :: symbol where "STARTREPEAT = QTerminal ''STARTREPEAT''"
definition ENDREPEAT :: symbol where "ENDREPEAT = QTerminal ''ENDREPEAT''"
definition STARTGROUP :: symbol where "STARTGROUP = QTerminal ''STARTGROUP''"
definition ENDGROUP :: symbol where "ENDGROUP = QTerminal ''ENDGROUP''"
definition STARTOPTION :: symbol where "STARTOPTION = QTerminal ''STARTOPTIONAL''"
definition ENDOPTION :: symbol where "ENDOPTION = QTerminal ''ENDOPTIONAL''"
definition STARTATL :: symbol where "STARTATL = QTerminal ''STARTATL''"
definition ENDATL :: symbol where "ENDATL = QTerminal ''ENDATL''"
definition OR :: symbol where "OR = QTerminal ''OR''"
definition LITERAL :: symbol where "LITERAL = QTerminal ''LITERAL''"
definition RULE :: symbol where "RULE = QTerminal ''RULE''"
definition TERM_sym :: symbol where "TERM_sym = QTerminal ''TERM''"

definition REPEATING :: symbol where "REPEATING = EBNFNonTerminalSymbol ''REPEATING''"
definition SEQUENCE :: symbol where "SEQUENCE = EBNFNonTerminalSymbol ''SEQUENCE''"
definition OPTIONAL :: symbol where "OPTIONAL = EBNFNonTerminalSymbol ''OPTIONAL''"
definition OPT :: symbol where "OPT = EBNFTerminalSymbol ''OPT''"
definition REP :: symbol where "REP = EBNFTerminalSymbol ''REP''"
definition ATL :: symbol where "ATL = EBNFTerminalSymbol ''ATL''"
definition ATLEASTONCE :: symbol where "ATLEASTONCE = EBNFNonTerminalSymbol ''ATLEASTONCE''"
definition ALTERNATING :: symbol where "ALTERNATING = EBNFNonTerminalSymbol ''ALTERNATING''"

lemmas symbol_defs =
  STARTREPEAT_def ENDREPEAT_def STARTGROUP_def ENDGROUP_def STARTOPTION_def ENDOPTION_def
  STARTATL_def ENDATL_def OR_def LITERAL_def RULE_def TERM_sym_def REPEATING_def SEQUENCE_def
  OPTIONAL_def OPT_def REP_def ATL_def ATLEASTONCE_def ALTERNATING_def

text \<open>The properties \<^verbatim>\<open>alternate\<close>, \<^verbatim>\<open>optional\<close>, \<^verbatim>\<open>repeating\<close>, \<^verbatim>\<open>oneormore\<close> of \<^verbatim>\<open>EBNFNode\<close>.\<close>

definition alternate :: "ebnf_node \<Rightarrow> bool" where
  "alternate node = (symbol (token node) = ALTERNATING)"

definition optional :: "ebnf_node \<Rightarrow> bool" where
  "optional node = (symbol (token node) = OPTIONAL)"

definition repeating :: "ebnf_node \<Rightarrow> bool" where
  "repeating node = (symbol (token node) = REPEATING)"

definition oneormore :: "ebnf_node \<Rightarrow> bool" where
  "oneormore node = (symbol (token node) = ATLEASTONCE)"

text \<open>\<^verbatim>\<open>EBNFNode(token)\<close>, \<^verbatim>\<open>node.add(thing)\<close> and the assignment \<^verbatim>\<open>node.token.symbol = s\<close>.\<close>

definition new_node :: "token \<Rightarrow> ebnf_node" where
  "new_node t = EBNFNode t []"

definition add :: "ebnf_node \<Rightarrow> ebnf_node \<Rightarrow> ebnf_node" where
  "add node thing = EBNFNode (token node) (children node @ [thing])"

definition set_symbol :: "ebnf_node \<Rightarrow> symbol \<Rightarrow> ebnf_node" where
  "set_symbol node s = EBNFNode ((token node)\<lparr>symbol := s\<rparr>) (children node)"

definition SEQ_MAP :: "symbol \<rightharpoonup> symbol" where
  "SEQ_MAP = map_of [(STARTGROUP, SEQUENCE), (STARTREPEAT, REPEATING),
                     (STARTOPTION, OPTIONAL), (STARTATL, ATLEASTONCE)]"

definition SUFFIX_MAP :: "symbol \<rightharpoonup> symbol" where
  "SUFFIX_MAP = map_of [(REP, REPEATING), (OPT, OPTIONAL), (ATL, ATLEASTONCE)]"

definition groupings :: "symbol \<rightharpoonup> symbol" where
  "groupings = map_of [(STARTGROUP, ENDGROUP), (STARTREPEAT, ENDREPEAT),
                       (STARTOPTION, ENDOPTION), (STARTATL, ENDATL)]"

section \<open>Concrete syntax trees and errors\<close>

text \<open>
  \<^verbatim>\<open>CSTNode(token)\<close>: \<^verbatim>\<open>match_terminal\<close> stores the bare lexeme of the parser node as the
  node's token, every other place stores a token object.
\<close>

datatype cst_token = Lexeme string | Tok token

datatype cst = CSTNode (cst_token_of: cst_token) (cst_children: "cst list")

text \<open>The messages of the exceptions the module raises, with their format arguments.\<close>

datatype message =
    ExpectedToClose string string
  | IllegalMix string
  | RuleAlreadyExists string
  | DidNotProcess string
  | RedefiningTerminal string
  | WrongUnpack
  | NoStartRule
  | NoRuleFor string
  | MissingEBNFToken
  | NotAllConsumed "token list"
  | UnexpectedEndOfTokens ebnf_node
  | NotAtLeastOnce
  | RanOutOfOptions
  | MissingGroup "token list"
  | ExpectedFoundNothing ebnf_node

datatype error =
    SyntaxError message
  | ValueError message
  | IndexError
  | KeyError
  | AttributeError
  | UnboundLocalError
  | StopIteration
  | LexicalError

section \<open>The parser-node builder\<close>

text \<open>
  \<^verbatim>\<open>groupcount\<close> is a module-level \<^verbatim>\<open>Counter\<close>: it is passed in and returned. The
  format \<^verbatim>\<open>"%s-%d"\<close> needs the decimal digits of a natural number.
\<close>

type_synonym counter = "string \<Rightarrow> nat"

definition digit_char :: "nat \<Rightarrow> char" where
  "digit_char d = ''0123456789'' ! d"

fun string_of_nat :: "nat \<Rightarrow> string" where
  "string_of_nat n =
     (if n < 10 then [digit_char n] else string_of_nat (n div 10) @ [digit_char (n mod 10)])"

declare string_of_nat.simps [simp del]

text \<open>\<^verbatim>\<open>name.split('-')[0]\<close>\<close>

definition base_name :: "string \<Rightarrow> string" where
  "base_name nm = takeWhile (\<lambda>c. c \<noteq> CHR ''-'') nm"

text \<open>
  The branch of \<^verbatim>\<open>make_parser_node\<close> for a closing token (lines 169 to 190): the closer
  must be the expected one (with \<^verbatim>\<open>endtoken = None\<close> the message's \<^verbatim>\<open>endtoken.name\<close>
  raises \<^verbatim>\<open>AttributeError\<close>); a suffix after \<^verbatim>\<open>}\<close> or \<^verbatim>\<open>]\<close> is refused; a suffix after
  another closer rewrites the symbol of \<^verbatim>\<open>this\<close> and is consumed.
\<close>

definition close_group ::
    "string \<Rightarrow> symbol option \<Rightarrow> ebnf_node \<Rightarrow> token \<Rightarrow> token list \<Rightarrow> counter \<Rightarrow>
       error + (ebnf_node \<times> token list \<times> counter)" where
  "close_group nm endtoken this first rest groupcount =
     (case endtoken of
        None \<Rightarrow> Inl AttributeError
      | Some e \<Rightarrow>
         if e \<noteq> symbol first
         then Inl (SyntaxError (ExpectedToClose (name_of e) (name_of (symbol first))))
         else
           (let used_brackets = (symbol first \<in> set [ENDREPEAT, ENDOPTION]) in
            case rest of
              [] \<Rightarrow> Inr (this, [], groupcount)
            | nxt # rest' \<Rightarrow>
               if used_brackets \<and> symbol nxt \<in> set [REP, OPT, ATL]
               then Inl (SyntaxError (IllegalMix nm))
               else if symbol nxt \<in> set [REP, OPT, ATL]
               then (case SUFFIX_MAP (symbol nxt) of
                       None \<Rightarrow> Inl KeyError
                     | Some s \<Rightarrow> Inr (set_symbol this s, rest', groupcount))
               else Inr (this, rest, groupcount)))"

text \<open>
  \<^verbatim>\<open>make_parser_node(name, tokens, endtoken)\<close>; \<open>parser_node_loop\<close> is its \<^verbatim>\<open>while tokens\<close>
  loop with the loop state \<^verbatim>\<open>this\<close>, \<^verbatim>\<open>tokens\<close>. The recursive call for a group returns
  the tokens the loop continues with.
\<close>

function make_parser_node ::
    "string \<Rightarrow> token list \<Rightarrow> symbol option \<Rightarrow> counter \<Rightarrow>
       error + (ebnf_node option \<times> token list \<times> counter)"
  and parser_node_loop ::
    "string \<Rightarrow> symbol option \<Rightarrow> ebnf_node \<Rightarrow> token list \<Rightarrow> counter \<Rightarrow>
       error + (ebnf_node \<times> token list \<times> counter)"
where
  "make_parser_node nm tokens endtoken groupcount =
     (if tokens = [] then Inr (None, [], groupcount)
      else case parser_node_loop nm endtoken
                  (new_node \<lparr>cls = EBNFToken, symbol = SEQUENCE, lexeme = nm,
                              start = 0, finish = 0\<rparr>)
                  tokens groupcount of
             Inl e \<Rightarrow> Inl e
           | Inr (this, rest, gc) \<Rightarrow> Inr (Some this, rest, gc))"
| "parser_node_loop nm endtoken this [] groupcount = Inr (this, [], groupcount)"
| "parser_node_loop nm endtoken this (first # rest) groupcount =
     (if symbol first \<in> set [STARTGROUP, STARTREPEAT, STARTOPTION, STARTATL] then
        (let key = base_name nm;
             gc1 = groupcount(key := groupcount key + 1)
         in case groupings (symbol first) of
              None \<Rightarrow> Inl KeyError
            | Some closer \<Rightarrow>
               (case make_parser_node (key @ ''-'' @ string_of_nat (gc1 key)) rest
                       (Some closer) gc1 of
                  Inl e \<Rightarrow> Inl e
                | Inr (None, tokens', gc2) \<Rightarrow> parser_node_loop nm endtoken this tokens' gc2
                | Inr (Some child, tokens', gc2) \<Rightarrow>
                   (case SEQ_MAP (symbol first) of
                      None \<Rightarrow> Inl KeyError
                    | Some s \<Rightarrow>
                       parser_node_loop nm endtoken (add this (set_symbol child s)) tokens' gc2)))
      else if symbol first \<in> set [ENDGROUP, ENDREPEAT, ENDOPTION, ENDATL] then
        close_group nm endtoken this first rest groupcount
      else if symbol first = OR then
        parser_node_loop nm endtoken (add (set_symbol this ALTERNATING) (new_node first))
          rest groupcount
      else
        parser_node_loop nm endtoken (add this (new_node first)) rest groupcount)"
  by pat_completeness auto

lemma close_group_length:
  "close_group nm endtoken this first rest gc = Inr (this', remaining, gc') \<Longrightarrow>
     length remaining \<le> length rest"
  by (auto simp: close_group_def Let_def split: option.splits if_splits list.splits)

lemma make_parser_node_length:
  "make_parser_node_parser_node_loop_dom (Inl (nm, tokens, endtoken, gc)) \<Longrightarrow>
     make_parser_node nm tokens endtoken gc = Inr (n, remaining, gc') \<Longrightarrow>
     length remaining \<le> length tokens"
  "make_parser_node_parser_node_loop_dom (Inr (nm, endtoken, this, tokens, gc)) \<Longrightarrow>
     parser_node_loop nm endtoken this tokens gc = Inr (this', remaining, gc') \<Longrightarrow>
     length remaining \<le> length tokens"
proof (induct arbitrary: n remaining gc' and this' remaining gc'
       rule: make_parser_node_parser_node_loop.pinduct)
  case (1 nm tokens endtoken groupcount)
  then show ?case
    by (auto simp: make_parser_node.psimps split: if_splits sum.splits)
next
  case (2 nm endtoken this groupcount)
  then show ?case by (simp add: parser_node_loop.psimps)
next
  case (3 nm endtoken this first rest groupcount)
  note unfold = parser_node_loop.psimps(2)[OF "3.hyps"(1)]
  show ?case
  proof (cases "symbol first \<in> set [STARTGROUP, STARTREPEAT, STARTOPTION, STARTATL]")
    case True
    define key where "key = base_name nm"
    define gc1 where "gc1 = groupcount(key := groupcount key + 1)"
    from True obtain closer where closer: "groupings (symbol first) = Some closer"
      using "3.prems" by (auto simp: unfold Let_def split: option.splits)
    obtain child tokens' gc2 where inner:
      "make_parser_node (key @ ''-'' @ string_of_nat (gc1 key)) rest (Some closer) gc1
         = Inr (child, tokens', gc2)"
      using "3.prems" True closer
      by (auto simp: unfold Let_def key_def gc1_def split: sum.splits)
    have len1: "length tokens' \<le> length rest"
      using "3.hyps"(2)[OF True key_def gc1_def closer inner] .
    show ?thesis
    proof (cases child)
      case None
      have "parser_node_loop nm endtoken this tokens' gc2 = Inr (this', remaining, gc')"
        using "3.prems" True closer inner None
        by (simp add: unfold Let_def key_def gc1_def)
      from "3.hyps"(3)[OF True key_def gc1_def closer inner _ None _ this, of "(tokens', gc2)"]
      have "length remaining \<le> length tokens'" by simp
      with len1 show ?thesis by simp
    next
      case (Some c)
      obtain s where s: "SEQ_MAP (symbol first) = Some s"
        using "3.prems" True closer inner Some
        by (auto simp: unfold Let_def key_def gc1_def split: option.splits)
      have "parser_node_loop nm endtoken (add this (set_symbol c s)) tokens' gc2
              = Inr (this', remaining, gc')"
        using "3.prems" True closer inner Some s
        by (simp add: unfold Let_def key_def gc1_def)
      from "3.hyps"(4)[OF True key_def gc1_def closer inner _ Some _ s this, of "(tokens', gc2)"]
      have "length remaining \<le> length tokens'" by simp
      with len1 show ?thesis by simp
    qed
  next
    case False
    show ?thesis
    proof (cases "symbol first \<in> set [ENDGROUP, ENDREPEAT, ENDOPTION, ENDATL]")
      case True
      with False "3.prems"
      have "close_group nm endtoken this first rest groupcount = Inr (this', remaining, gc')"
        by (simp add: unfold)
      from close_group_length[OF this] show ?thesis by simp
    next
      case notcloser: False
      show ?thesis
      proof (cases "symbol first = OR")
        case True
        with False notcloser "3.prems" "3.hyps"(5) show ?thesis
          by (fastforce simp: unfold)
      next
        case notor: False
        with False notcloser "3.prems" "3.hyps"(6) show ?thesis
          by (fastforce simp: unfold)
      qed
    qed
  qed
qed

termination make_parser_node
  by (relation "measure (\<lambda>x. case x of
                    Inl (nm, tokens, et, gc) \<Rightarrow> 2 * length tokens + 1
                  | Inr (nm, et, this, tokens, gc) \<Rightarrow> 2 * length tokens)")
     (auto dest: make_parser_node_length(1))

declare make_parser_node.simps [simp del]
declare parser_node_loop.simps(2) [simp del]

section \<open>The compiled grammar\<close>

text \<open>
  The fields of \<^verbatim>\<open>EBNFParser\<close> that compiling and matching use. \<open>rules\<close> is the
  \<^verbatim>\<open>OrderedDict\<close> (a rule with an empty body is stored as \<^verbatim>\<open>None\<close>); \<open>lexers\<close> and
  \<open>tokenizer_symbols\<close> stand for the state of the target tokenizer.
\<close>

record parser =
  rules :: "(string \<times> ebnf_node option) list"
  symbol_table :: "(string \<times> symbol) list"
  start_rule :: "string option"
  collapse_tree :: bool
  lexers :: "(string \<times> string option) list"
  tokenizer_symbols :: "string list"

text \<open>\<^verbatim>\<open>self.rules.get(rule)\<close>: \<^verbatim>\<open>None\<close> for a missing key and for a stored \<^verbatim>\<open>None\<close>.\<close>

definition rules_get :: "parser \<Rightarrow> string \<Rightarrow> ebnf_node option" where
  "rules_get self rule = (case map_of (rules self) rule of Some (Some n) \<Rightarrow> Some n | _ \<Rightarrow> None)"

section \<open>The grammar compiler\<close>

text \<open>
  The string operations of \<^verbatim>\<open>EBNFParser.__init__\<close>: \<^verbatim>\<open>str.strip\<close>, \<^verbatim>\<open>str.islower\<close>,
  \<^verbatim>\<open>str.isupper\<close> (at least one cased character and none of the other case),
  \<^verbatim>\<open>text.split(';')\<close> and \<^verbatim>\<open>line.split(":=")\<close>. A string is a list of \<^typ>\<open>char\<close>, so a
  grammar text is a text over the code points 0 to 255. On these, the white space of
  Python is 0x09 to 0x0D, 0x1C to 0x20, 0x85 and 0xA0; the lower-case characters are
  a to z, 0xAA, 0xB5, 0xBA, 0xDF to 0xF6 and 0xF8 to 0xFF; the upper-case characters
  are A to Z, 0xC0 to 0xD6 and 0xD8 to 0xDE; no other character is cased.
\<close>

definition isspace :: "char \<Rightarrow> bool" where
  "isspace c =
     (c \<in> set [CHR 0x09, CHR 0x0A, CHR 0x0B, CHR 0x0C, CHR 0x0D, CHR 0x1C, CHR 0x1D, CHR 0x1E,
               CHR 0x1F, CHR 0x20, CHR 0x85, CHR 0xA0])"

definition strip :: "string \<Rightarrow> string" where
  "strip s = rev (dropWhile isspace (rev (dropWhile isspace s)))"

definition is_lower_char :: "char \<Rightarrow> bool" where
  "is_lower_char c =
     (c \<in> set (''abcdefghijklmnopqrstuvwxyz'' @
         [CHR 0xAA, CHR 0xB5, CHR 0xBA, CHR 0xDF, CHR 0xE0, CHR 0xE1, CHR 0xE2, CHR 0xE3,
          CHR 0xE4, CHR 0xE5, CHR 0xE6, CHR 0xE7, CHR 0xE8, CHR 0xE9, CHR 0xEA, CHR 0xEB,
          CHR 0xEC, CHR 0xED, CHR 0xEE, CHR 0xEF, CHR 0xF0, CHR 0xF1, CHR 0xF2, CHR 0xF3,
          CHR 0xF4, CHR 0xF5, CHR 0xF6, CHR 0xF8, CHR 0xF9, CHR 0xFA, CHR 0xFB, CHR 0xFC,
          CHR 0xFD, CHR 0xFE, CHR 0xFF]))"

definition is_upper_char :: "char \<Rightarrow> bool" where
  "is_upper_char c =
     (c \<in> set (''ABCDEFGHIJKLMNOPQRSTUVWXYZ'' @
         [CHR 0xC0, CHR 0xC1, CHR 0xC2, CHR 0xC3, CHR 0xC4, CHR 0xC5, CHR 0xC6, CHR 0xC7,
          CHR 0xC8, CHR 0xC9, CHR 0xCA, CHR 0xCB, CHR 0xCC, CHR 0xCD, CHR 0xCE, CHR 0xCF,
          CHR 0xD0, CHR 0xD1, CHR 0xD2, CHR 0xD3, CHR 0xD4, CHR 0xD5, CHR 0xD6, CHR 0xD8,
          CHR 0xD9, CHR 0xDA, CHR 0xDB, CHR 0xDC, CHR 0xDD, CHR 0xDE]))"

definition islower :: "string \<Rightarrow> bool" where
  "islower s = (list_ex is_lower_char s \<and> \<not> list_ex is_upper_char s)"

definition isupper :: "string \<Rightarrow> bool" where
  "isupper s = (list_ex is_upper_char s \<and> \<not> list_ex is_lower_char s)"

fun split_char :: "char \<Rightarrow> string \<Rightarrow> string \<Rightarrow> string list" where
  "split_char sep acc [] = [rev acc]"
| "split_char sep acc (c # cs) =
     (if c = sep then rev acc # split_char sep [] cs else split_char sep (c # acc) cs)"

fun split_define :: "string \<Rightarrow> string \<Rightarrow> string list" where
  "split_define acc [] = [rev acc]"
| "split_define acc [c] = [rev (c # acc)]"
| "split_define acc (c # d # cs) =
     (if c = CHR '':'' \<and> d = CHR ''=''
      then rev acc # split_define [] cs else split_define (c # acc) (d # cs))"

text \<open>
  Modelled from the spec: the state \<^verbatim>\<open>Tokenizer('', token_class)\<close> is left in by the two
  calls of \<^verbatim>\<open>add_lexer\<close> at the start of \<^verbatim>\<open>__init__\<close> (the class is absent): the patterns
  in insertion order, and the symbol names registered so far.
\<close>

definition new_parser :: parser where
  "new_parser = \<lparr>rules = [], symbol_table = [], start_rule = None, collapse_tree = True,
                  lexers = [([CHR 0x5C] @ ''s+'', None), ([CHR 0x22] @ ''[^'' @ [CHR 0x22] @ '']+'' @ [CHR 0x22], Some ''LITERAL'')],
                  tokenizer_symbols = [''LITERAL'']\<rparr>"

text \<open>
  The loop \<^verbatim>\<open>for key, val in data\<close>. \<open>lexer\<close> stands for \<^verbatim>\<open>list(EBNFTokenizer(val))\<close>, the
  meta-grammar lexer of the absent tokenizer module. Unpacking a line that does not
  split into exactly two parts raises \<^verbatim>\<open>ValueError\<close>.
\<close>

fun init_rules ::
    "(string \<Rightarrow> error + token list) \<Rightarrow> string list list \<Rightarrow> parser \<Rightarrow> counter \<Rightarrow>
       error + (parser \<times> counter)" where
  "init_rules lexer [] self groupcount = Inr (self, groupcount)"
| "init_rules lexer (parts # data) self groupcount =
     (case parts of
        [key0, val] \<Rightarrow>
          (let key = strip key0 in
           if key \<in> set (map fst (symbol_table self))
           then Inl (SyntaxError (RuleAlreadyExists key))
           else if islower key then
             (case lexer val of
                Inl e \<Rightarrow> Inl e
              | Inr ebnf_tokens \<Rightarrow>
                 (case make_parser_node key ebnf_tokens None groupcount of
                    Inl e \<Rightarrow> Inl e
                  | Inr (parser_node, remaining, gc) \<Rightarrow>
                     if remaining \<noteq> [] then Inl (SyntaxError (DidNotProcess key))
                     else init_rules lexer data
                            (self\<lparr>rules := AList.update key parser_node (rules self),
                                   symbol_table :=
                                     AList.update key (EBNFNonTerminalSymbol key) (symbol_table self)\<rparr>)
                            gc))
           else if isupper key then
             (if key \<in> set (tokenizer_symbols self)
              then Inl (ValueError (RedefiningTerminal key))
              else init_rules lexer data
                     (self\<lparr>tokenizer_symbols := tokenizer_symbols self @ [key],
                            lexers := lexers self @ [(strip val, Some key)],
                            symbol_table :=
                              AList.update key (EBNFTerminalSymbol key) (symbol_table self)\<rparr>)
                     groupcount)
           else init_rules lexer data self groupcount)
      | _ \<Rightarrow> Inl (ValueError WrongUnpack))"

text \<open>
  \<^verbatim>\<open>EBNFParser(text)\<close>. The start rule is the first key of \<^verbatim>\<open>rules\<close>; with no rule at all
  \<^verbatim>\<open>next(iter(...))\<close> raises \<^verbatim>\<open>StopIteration\<close>.
\<close>

definition EBNFParser_init ::
    "(string \<Rightarrow> error + token list) \<Rightarrow> string \<Rightarrow> counter \<Rightarrow> error + (parser \<times> counter)" where
  "EBNFParser_init lexer text0 groupcount =
     (let lines = filter (\<lambda>line. strip line \<noteq> []) (split_char (CHR '';'') [] text0);
          data = map (split_define []) lines
      in case init_rules lexer data new_parser groupcount of
           Inl e \<Rightarrow> Inl e
         | Inr (self, gc) \<Rightarrow>
            (case rules self of
               [] \<Rightarrow> Inl StopIteration
             | (key, parser_node) # rest \<Rightarrow> Inr (self\<lparr>start_rule := Some key\<rparr>, gc)))"

section \<open>The matcher\<close>

text \<open>
  A match operation returns \<^verbatim>\<open>(ok, node, tokens)\<close>, raises, or does not return. The
  outcome \<open>None\<close> is "no result within the given fuel"; the fuel bounds the depth of
  nested calls and the number of iterations of the two \<^verbatim>\<open>while\<close> loops. The trace
  (\<^verbatim>\<open>_report\<close>, \<^verbatim>\<open>logging\<close>, \<^verbatim>\<open>_calls\<close>) is not part of the model, except for the
  subscript \<^verbatim>\<open>tokens[0]\<close> in the trace line of \<^verbatim>\<open>match\<close>, which raises on an empty list.
\<close>

type_synonym 'a outcome = "(error + 'a) option"

abbreviation Raise :: "error \<Rightarrow> 'a outcome" where
  "Raise e \<equiv> Some (Inl e)"

abbreviation Return :: "'a \<Rightarrow> 'a outcome" where
  "Return v \<equiv> Some (Inr v)"

type_synonym matched = "bool \<times> cst option \<times> token list"

type_synonym matched_seq = "bool \<times> cst list \<times> token list"

text \<open>
  \<^verbatim>\<open>split_by_or\<close>: \<^verbatim>\<open>groupby\<close> on "is an OR node", keeping the groups that are not: the
  maximal runs of children between OR markers.
\<close>

definition is_or :: "ebnf_node \<Rightarrow> bool" where
  "is_or x = (symbol (token x) = OR)"

function split_by_or :: "ebnf_node list \<Rightarrow> ebnf_node list list" where
  "split_by_or [] = []"
| "split_by_or (x # xs) =
     (if is_or x then split_by_or xs
      else (x # takeWhile (\<lambda>y. \<not> is_or y) xs) # split_by_or (dropWhile (\<lambda>y. \<not> is_or y) xs))"
  by pat_completeness auto
termination
  by (relation "measure length") (auto simp: length_dropWhile_le less_Suc_eq_le)

text \<open>
  The loop of \<^verbatim>\<open>match_sequence\<close>. \<open>m\<close> is the call \<^verbatim>\<open>self.match(this, tokens, i+1)\<close>;
  \<open>ok\<close> is the variable \<^verbatim>\<open>ok\<close>, unbound until the first child has matched.
\<close>

fun sequence_loop ::
    "(ebnf_node \<Rightarrow> token list \<Rightarrow> matched outcome) \<Rightarrow> token list \<Rightarrow> bool option \<Rightarrow>
       cst list \<Rightarrow> ebnf_node list \<Rightarrow> token list \<Rightarrow> matched_seq outcome" where
  "sequence_loop m orig_tokens ok found [] tokens =
     (case ok of None \<Rightarrow> Raise UnboundLocalError | Some b \<Rightarrow> Return (b, found, tokens))"
| "sequence_loop m orig_tokens ok found (this # expected) tokens =
     (if tokens = [] then
        (if oneormore this then Raise (SyntaxError (ExpectedFoundNothing this))
         else Return (False, [], orig_tokens))
      else case m this tokens of
             None \<Rightarrow> None
           | Some (Inl e) \<Rightarrow> Raise e
           | Some (Inr (ok', node, tokens')) \<Rightarrow>
              (case node of
                 Some nd \<Rightarrow>
                   sequence_loop m orig_tokens (Some ok') (found @ cst_children nd) expected tokens'
               | None \<Rightarrow> Return (False, found, tokens')))"

text \<open>
  The loop of \<^verbatim>\<open>match_alternate\<close>. \<open>ms\<close> is the call of \<^verbatim>\<open>match_sequence\<close> on one
  alternative; every alternative starts from a copy of \<^verbatim>\<open>original_tokens\<close>, and a
  \<^verbatim>\<open>ValueError\<close> counts as a failed alternative.
\<close>

fun alternate_loop ::
    "(ebnf_node list \<Rightarrow> token list \<Rightarrow> matched_seq outcome) \<Rightarrow> token \<Rightarrow> token list \<Rightarrow>
       ebnf_node list list \<Rightarrow> matched outcome" where
  "alternate_loop ms tok original_tokens [] = Return (False, None, original_tokens)"
| "alternate_loop ms tok original_tokens (alt # alternates) =
     (case ms alt original_tokens of
        None \<Rightarrow> None
      | Some (Inl (ValueError msg)) \<Rightarrow> alternate_loop ms tok original_tokens alternates
      | Some (Inl e) \<Rightarrow> Raise e
      | Some (Inr (ok, found, remaining_tokens)) \<Rightarrow>
          if ok then Return (True, Some (CSTNode (Tok tok) found), remaining_tokens)
          else alternate_loop ms tok original_tokens alternates)"

text \<open>
  The loop \<^verbatim>\<open>while keep_trying\<close> of \<^verbatim>\<open>match_repeating\<close>: the state is the children
  gathered so far and the current tokens; it returns both when an attempt is not ok.
\<close>

fun repeating_loop ::
    "nat \<Rightarrow> (token list \<Rightarrow> matched_seq outcome) \<Rightarrow> cst list \<Rightarrow> token list \<Rightarrow>
       (cst list \<times> token list) outcome" where
  "repeating_loop 0 ms acc tokens = None"
| "repeating_loop (Suc k) ms acc tokens =
     (case ms tokens of
        None \<Rightarrow> None
      | Some (Inl e) \<Rightarrow> Raise e
      | Some (Inr (ok, addends, tokens')) \<Rightarrow>
          if ok then repeating_loop k ms (acc @ addends) tokens'
          else Return (acc, tokens'))"

text \<open>
  The loop \<^verbatim>\<open>while ok\<close> of \<^verbatim>\<open>match_one_or_more\<close>, entered with \<^verbatim>\<open>ok\<close> true: the state is
  the children gathered so far, the children of the last attempt and the current tokens.
\<close>

fun one_or_more_loop ::
    "nat \<Rightarrow> (token list \<Rightarrow> matched_seq outcome) \<Rightarrow> cst list \<Rightarrow> cst list \<Rightarrow> token list \<Rightarrow>
       (cst list \<times> token list) outcome" where
  "one_or_more_loop 0 ms acc cs tokens = None"
| "one_or_more_loop (Suc k) ms acc cs tokens =
     (case ms tokens of
        None \<Rightarrow> None
      | Some (Inl e) \<Rightarrow> Raise e
      | Some (Inr (ok, cs', tokens')) \<Rightarrow>
          if ok then one_or_more_loop k ms (acc @ cs) cs' tokens'
          else Return (acc @ cs, tokens'))"

text \<open>The end of \<^verbatim>\<open>match_nonterminal\<close>: the children of \<^verbatim>\<open>child\<close> are appended to the node.\<close>

definition finish_nonterminal :: "token \<Rightarrow> cst list \<Rightarrow> cst option \<Rightarrow> token list \<Rightarrow> matched outcome" where
  "finish_nonterminal tok found child tokens =
     (let cs = found @ (case child of None \<Rightarrow> [] | Some c \<Rightarrow> cst_children c)
      in if cs \<noteq> [] then Return (True, Some (CSTNode (Tok tok) cs), tokens)
         else Return (False, None, tokens))"

text \<open>
  The methods of \<^verbatim>\<open>EBNFParser\<close> call each other in a cycle. Each method body is
  written once, with the methods it calls as parameters (\<open>m\<close> for \<^verbatim>\<open>self.match\<close>,
  \<open>mr\<close> for \<^verbatim>\<open>self.match_rule\<close>, \<open>ms\<close> for \<^verbatim>\<open>self.match_sequence\<close>, and so on); the
  recursion is closed afterwards.
\<close>

definition match_rule_body ::
    "(ebnf_node \<Rightarrow> token list \<Rightarrow> nat \<Rightarrow> matched outcome) \<Rightarrow>
       parser \<Rightarrow> string \<Rightarrow> token list \<Rightarrow> nat \<Rightarrow> matched outcome" where
  "match_rule_body m self rule tokens i =
     (case rules_get self rule of
        None \<Rightarrow> Raise (SyntaxError (NoRuleFor rule))
      | Some parser_node \<Rightarrow>
          if cls (token parser_node) \<noteq> EBNFToken then Raise (ValueError MissingEBNFToken)
          else
            (case m parser_node tokens (i + 1) of
               None \<Rightarrow> None
             | Some (Inl e) \<Rightarrow> Raise e
             | Some (Inr (ok, node, tokens')) \<Rightarrow>
                 if i = 0 \<and> tokens' \<noteq> [] then Raise (ValueError (NotAllConsumed (take 3 tokens')))
                 else Return (ok, node, tokens')))"

definition match_body ::
    "(ebnf_node \<Rightarrow> token list \<Rightarrow> nat \<Rightarrow> matched outcome) \<Rightarrow>
     (ebnf_node \<Rightarrow> token list \<Rightarrow> nat \<Rightarrow> matched outcome) \<Rightarrow>
       ebnf_node \<Rightarrow> token list \<Rightarrow> nat \<Rightarrow> matched outcome" where
  "match_body mt mnt parser_node tokens i =
     (if \<not> (optional parser_node \<or> repeating parser_node) \<and> tokens = []
      then Raise (SyntaxError (UnexpectedEndOfTokens parser_node))
      else if tokens = [] then Raise IndexError
      else if is_terminal (symbol (token parser_node))
      then mt parser_node tokens i
      else mnt parser_node tokens i)"

definition match_terminal_body ::
    "(string \<Rightarrow> token list \<Rightarrow> nat \<Rightarrow> matched outcome) \<Rightarrow>
       parser \<Rightarrow> ebnf_node \<Rightarrow> token list \<Rightarrow> nat \<Rightarrow> matched outcome" where
  "match_terminal_body mr self parser_node tokens i =
     (case tokens of
        [] \<Rightarrow> Return (False, None, tokens)
      | t # ts \<Rightarrow>
          if symbol (token parser_node) = RULE then
            (case mr (lexeme (token parser_node)) tokens (i + 1) of
               None \<Rightarrow> None
             | Some (Inl e) \<Rightarrow> Raise e
             | Some (Inr (ok, child, tokens')) \<Rightarrow>
                 Return (True,
                   Some (CSTNode (Lexeme (lexeme (token parser_node)))
                     (case child of
                        None \<Rightarrow> []
                      | Some c \<Rightarrow>
                          if collapse_tree self \<and> length (cst_children c) = 1
                          then [hd (cst_children c)] else [c])),
                   tokens'))
          else if symbol (token parser_node) = LITERAL then
            (if lexeme (token parser_node) = lexeme t
             then Return (True,
                    Some (CSTNode (Lexeme (lexeme (token parser_node))) [CSTNode (Tok t) []]), ts)
             else Return (False, None, tokens))
          else if lexeme (token parser_node) = name_of (symbol t)
          then Return (True,
                 Some (CSTNode (Lexeme (lexeme (token parser_node))) [CSTNode (Tok t) []]), ts)
          else Return (False, None, tokens))"

definition match_nonterminal_body ::
    "(ebnf_node \<Rightarrow> token list \<Rightarrow> nat \<Rightarrow> matched outcome) \<Rightarrow>
     (ebnf_node \<Rightarrow> token list \<Rightarrow> nat \<Rightarrow> matched outcome) \<Rightarrow>
     (ebnf_node \<Rightarrow> token list \<Rightarrow> nat \<Rightarrow> matched outcome) \<Rightarrow>
     (ebnf_node \<Rightarrow> token list \<Rightarrow> nat \<Rightarrow> matched outcome) \<Rightarrow>
     (string \<Rightarrow> ebnf_node list \<Rightarrow> token list \<Rightarrow> nat \<Rightarrow> matched_seq outcome) \<Rightarrow>
       parser \<Rightarrow> ebnf_node \<Rightarrow> token list \<Rightarrow> nat \<Rightarrow> matched outcome" where
  "match_nonterminal_body malt mrep mopt matl ms self parser_node tokens i =
     (case map_of (symbol_table self) (base_name (lexeme (token parser_node))) of
        None \<Rightarrow> Raise KeyError
      | Some nt_symbol \<Rightarrow>
         (let tok = \<lparr>cls = Token, symbol = nt_symbol, lexeme = lexeme (token parser_node),
                      start = start (token parser_node), finish = finish (token parser_node)\<rparr>
          in
          if tokens = [] then Return (False, None, tokens)
          else if alternate parser_node then
            (case malt parser_node tokens (i + 1) of
               None \<Rightarrow> None
             | Some (Inl e) \<Rightarrow> Raise e
             | Some (Inr (ok, child, tokens')) \<Rightarrow> finish_nonterminal tok [] child tokens')
          else if repeating parser_node then
            (case mrep parser_node tokens (i + 1) of
               None \<Rightarrow> None
             | Some (Inl e) \<Rightarrow> Raise e
             | Some (Inr (ok, child, tokens')) \<Rightarrow> finish_nonterminal tok [] child tokens')
          else if optional parser_node then
            (case mopt parser_node tokens (i + 1) of
               None \<Rightarrow> None
             | Some (Inl e) \<Rightarrow> Raise e
             | Some (Inr (ok, child, tokens')) \<Rightarrow> finish_nonterminal tok [] child tokens')
          else if oneormore parser_node then
            (case matl parser_node tokens (i + 1) of
               None \<Rightarrow> None
             | Some (Inl e) \<Rightarrow> Raise e
             | Some (Inr (ok, child, tokens')) \<Rightarrow>
                 if \<not> ok then Raise (SyntaxError NotAtLeastOnce)
                 else finish_nonterminal tok [] child tokens')
          else if symbol (token parser_node) = SEQUENCE then
            (case ms (lexeme (token parser_node)) (children parser_node) tokens (i + 1) of
               None \<Rightarrow> None
             | Some (Inl e) \<Rightarrow> Raise e
             | Some (Inr (ok, found, tokens')) \<Rightarrow> finish_nonterminal tok found None tokens')
          else Raise (SyntaxError RanOutOfOptions)))"

definition match_optional_body ::
    "(string \<Rightarrow> ebnf_node list \<Rightarrow> token list \<Rightarrow> nat \<Rightarrow> matched_seq outcome) \<Rightarrow>
       ebnf_node \<Rightarrow> token list \<Rightarrow> nat \<Rightarrow> matched outcome" where
  "match_optional_body ms parser_node tokens i =
     (case ms (lexeme (token parser_node)) (children parser_node) tokens (i + 1) of
        None \<Rightarrow> None
      | Some (Inl e) \<Rightarrow> Raise e
      | Some (Inr (ok, cs, tokens')) \<Rightarrow>
          if ok then Return (True, Some (CSTNode (Tok (token parser_node)) cs), tokens')
          else Return (False, None, tokens'))"

definition match_one_or_more_body ::
    "nat \<Rightarrow> (string \<Rightarrow> ebnf_node list \<Rightarrow> token list \<Rightarrow> nat \<Rightarrow> matched_seq outcome) \<Rightarrow>
       ebnf_node \<Rightarrow> token list \<Rightarrow> nat \<Rightarrow> matched outcome" where
  "match_one_or_more_body k ms parser_node tokens i =
     (case ms (lexeme (token parser_node)) (children parser_node) tokens (i + 1) of
        None \<Rightarrow> None
      | Some (Inl e) \<Rightarrow> Raise e
      | Some (Inr (ok, cs, tokens')) \<Rightarrow>
          if \<not> ok then Raise (SyntaxError (MissingGroup tokens'))
          else
            (case one_or_more_loop k
                    (\<lambda>ts. ms (lexeme (token parser_node)) (children parser_node) ts (i + 1))
                    [] cs tokens' of
               None \<Rightarrow> None
             | Some (Inl e) \<Rightarrow> Raise e
             | Some (Inr (acc, tokens'')) \<Rightarrow>
                 if acc \<noteq> []
                 then Return (True, Some (CSTNode (Tok (token parser_node)) acc), tokens'')
                 else Return (False, None, tokens'')))"

definition match_repeating_body ::
    "nat \<Rightarrow> (string \<Rightarrow> ebnf_node list \<Rightarrow> token list \<Rightarrow> nat \<Rightarrow> matched_seq outcome) \<Rightarrow>
       ebnf_node \<Rightarrow> token list \<Rightarrow> nat \<Rightarrow> matched outcome" where
  "match_repeating_body k ms parser_node tokens i =
     (case repeating_loop k
             (\<lambda>ts. ms (lexeme (token parser_node)) (children parser_node) ts (i + 1))
             [] tokens of
        None \<Rightarrow> None
      | Some (Inl e) \<Rightarrow> Raise e
      | Some (Inr (acc, tokens')) \<Rightarrow>
          if acc \<noteq> [] then Return (True, Some (CSTNode (Tok (token parser_node)) acc), tokens')
          else Return (False, None, tokens'))"

definition match_alternate_body ::
    "(string \<Rightarrow> ebnf_node list \<Rightarrow> token list \<Rightarrow> nat \<Rightarrow> matched_seq outcome) \<Rightarrow>
       ebnf_node \<Rightarrow> token list \<Rightarrow> nat \<Rightarrow> matched outcome" where
  "match_alternate_body ms parser_node tokens i =
     (if tokens = [] then Return (False, None, tokens)
      else alternate_loop
             (\<lambda>alt ts. ms (lexeme (token parser_node)) alt ts (i + 1))
             (token parser_node) tokens (split_by_or (children parser_node)))"

definition match_sequence_body ::
    "(ebnf_node \<Rightarrow> token list \<Rightarrow> nat \<Rightarrow> matched outcome) \<Rightarrow>
       string \<Rightarrow> ebnf_node list \<Rightarrow> token list \<Rightarrow> nat \<Rightarrow> matched_seq outcome" where
  "match_sequence_body m nm originals tokens i =
     sequence_loop (\<lambda>this ts. m this ts (i + 1)) tokens None [] originals tokens"

text \<open>
  Every cycle of calls among the methods goes through \<^verbatim>\<open>match\<close>, so \<open>match\<close> is the
  one recursive function: with fuel \<open>Suc n\<close> it runs the body of \<^verbatim>\<open>match\<close>, in which
  every nested call of \<^verbatim>\<open>match\<close> has fuel \<open>n\<close> and every \<^verbatim>\<open>while\<close> loop may take \<open>n\<close>
  iterations. The other methods are then the bodies above applied to \<open>match n\<close>.
\<close>

fun match :: "nat \<Rightarrow> parser \<Rightarrow> ebnf_node \<Rightarrow> token list \<Rightarrow> nat \<Rightarrow> matched outcome" where
  "match 0 self parser_node tokens i = None"
| "match (Suc n) self parser_node tokens i =
     (let m = (\<lambda>node ts j. match n self node ts j);
          ms = match_sequence_body m;
          mr = match_rule_body m self
      in match_body
           (match_terminal_body mr self)
           (match_nonterminal_body (match_alternate_body ms) (match_repeating_body n ms)
              (match_optional_body ms) (match_one_or_more_body n ms) ms self)
           parser_node tokens i)"

definition match_rule :: "nat \<Rightarrow> parser \<Rightarrow> string \<Rightarrow> token list \<Rightarrow> nat \<Rightarrow> matched outcome" where
  "match_rule n self = match_rule_body (match n self) self"

definition match_sequence ::
    "nat \<Rightarrow> parser \<Rightarrow> string \<Rightarrow> ebnf_node list \<Rightarrow> token list \<Rightarrow> nat \<Rightarrow> matched_seq outcome" where
  "match_sequence n self = match_sequence_body (match n self)"

definition match_terminal ::
    "nat \<Rightarrow> parser \<Rightarrow> ebnf_node \<Rightarrow> token list \<Rightarrow> nat \<Rightarrow> matched outcome" where
  "match_terminal n self = match_terminal_body (match_rule n self) self"

definition match_optional ::
    "nat \<Rightarrow> parser \<Rightarrow> ebnf_node \<Rightarrow> token list \<Rightarrow> nat \<Rightarrow> matched outcome" where
  "match_optional n self = match_optional_body (match_sequence n self)"

definition match_one_or_more ::
    "nat \<Rightarrow> parser \<Rightarrow> ebnf_node \<Rightarrow> token list \<Rightarrow> nat \<Rightarrow> matched outcome" where
  "match_one_or_more n self = match_one_or_more_body n (match_sequence n self)"

definition match_repeating ::
    "nat \<Rightarrow> parser \<Rightarrow> ebnf_node \<Rightarrow> token list \<Rightarrow> nat \<Rightarrow> matched outcome" where
  "match_repeating n self = match_repeating_body n (match_sequence n self)"

definition match_alternate ::
    "nat \<Rightarrow> parser \<Rightarrow> ebnf_node \<Rightarrow> token list \<Rightarrow> nat \<Rightarrow> matched outcome" where
  "match_alternate n self = match_alternate_body (match_sequence n self)"

definition match_nonterminal ::
    "nat \<Rightarrow> parser \<Rightarrow> ebnf_node \<Rightarrow> token list \<Rightarrow> nat \<Rightarrow> matched outcome" where
  "match_nonterminal n self =
     match_nonterminal_body (match_alternate n self) (match_repeating n self)
       (match_optional n self) (match_one_or_more n self) (match_sequence n self) self"

text \<open>\<^verbatim>\<open>parse(tokens)\<close>\<close>

definition parse :: "nat \<Rightarrow> parser \<Rightarrow> token list \<Rightarrow> matched outcome" where
  "parse n self tokens =
     (case start_rule self of
        None \<Rightarrow> Raise (ValueError NoStartRule)
      | Some r \<Rightarrow> if r = [] then Raise (ValueError NoStartRule) else match_rule n self r tokens 0)"

lemma match_Suc:
  "match (Suc n) self parser_node tokens i =
     match_body (match_terminal n self) (match_nonterminal n self) parser_node tokens i"
  by (simp add: Let_def match_terminal_def match_nonterminal_def match_rule_def
        match_alternate_def match_repeating_def match_optional_def match_one_or_more_def
        match_sequence_def)

declare match.simps(2) [simp del]

section \<open>Evaluation rules and example inputs\<close>

lemmas builder_defs =
  close_group_def SEQ_MAP_def SUFFIX_MAP_def groupings_def base_name_def
  string_of_nat.simps digit_char_def add_def set_symbol_def new_node_def
  make_parser_node.simps parser_node_loop.simps

lemmas matcher_defs =
  match_rule_def match_sequence_def match_terminal_def match_optional_def
  match_one_or_more_def match_repeating_def match_alternate_def match_nonterminal_def
  match_rule_body_def match_body_def match_terminal_body_def match_nonterminal_body_def
  match_optional_body_def match_one_or_more_body_def match_repeating_body_def
  match_alternate_body_def match_sequence_body_def finish_nonterminal_def rules_get_def
  alternate_def optional_def repeating_def oneormore_def is_or_def parse_def

text \<open>
  A token as the meta-grammar lexer emits it, a token as the target tokenizer emits it
  (only its symbol name and its lexeme are read by the matcher), and a lexer given by a
  finite table from rule bodies to their meta-tokens, for the examples.
\<close>

definition meta_token :: "symbol \<Rightarrow> string \<Rightarrow> token" where
  "meta_token s l = \<lparr>cls = Token, symbol = s, lexeme = l, start = 0, finish = 0\<rparr>"

definition source_token :: "string \<Rightarrow> string \<Rightarrow> token" where
  "source_token nm l = \<lparr>cls = Token, symbol = QTerminal nm, lexeme = l, start = 0, finish = 0\<rparr>"

definition table_lexer :: "(string \<times> token list) list \<Rightarrow> string \<Rightarrow> error + token list" where
  "table_lexer tab val = (case map_of tab val of Some ts \<Rightarrow> Inr ts | None \<Rightarrow> Inl LexicalError)"

lemmas compiler_defs =
  EBNFParser_init_def new_parser_def strip_def isspace_def islower_def isupper_def
  is_lower_char_def is_upper_char_def table_lexer_def

text \<open>The parser node of a rule \<open>nm\<close> whose body is the given children.\<close>

definition rule_node :: "symbol \<Rightarrow> string \<Rightarrow> ebnf_node list \<Rightarrow> ebnf_node" where
  "rule_node s nm cs =
     EBNFNode \<lparr>cls = EBNFToken, symbol = s, lexeme = nm, start = 0, finish = 0\<rparr> cs"

text \<open>The grammar \<^verbatim>\<open>x := A;\<close> as \<^verbatim>\<open>EBNFParser\<close> compiles it.\<close>

definition grammar_x :: parser where
  "grammar_x =
     \<lparr>rules = [(''x'', Some (rule_node SEQUENCE ''x'' [new_node (meta_token TERM_sym ''A'')]))],
      symbol_table = [(''x'', EBNFNonTerminalSymbol ''x'')],
      start_rule = Some ''x'', collapse_tree = True,
      lexers = lexers new_parser, tokenizer_symbols = [''LITERAL'']\<rparr>"

lemma grammar_x_compiled:
  "EBNFParser_init (table_lexer [('' A'', [meta_token TERM_sym ''A''])]) ''x := A;'' (\<lambda>k. 0)
     = Inr (grammar_x, \<lambda>k. 0)"
  by (simp add: compiler_defs builder_defs symbol_defs meta_token_def rule_node_def
        grammar_x_def Let_def)

section \<open>The sequence matcher on a child miss\<close>

text \<open>
  Claim C3 (match_sequence restores the token list on any child miss). The code saves
  \<^verbatim>\<open>orig_tokens\<close> and returns it when the sequence runs out of tokens, but on a child
  miss it returns the tokens left by the children matched before: for the sequence
  \<^verbatim>\<open>"a" "b"\<close> on the tokens \<^verbatim>\<open>a c\<close> the result is ok = false with the partial children
  and the token list \<^verbatim>\<open>c\<close>, not \<^verbatim>\<open>a c\<close>.
\<close>

theorem match_sequence_child_miss_keeps_consumed:
  "match_sequence (Suc n) self ''r''
     [new_node (meta_token LITERAL ''a''), new_node (meta_token LITERAL ''b'')]
     [source_token ''LITERAL'' ''a'', source_token ''LITERAL'' ''c''] i
   = Return (False, [CSTNode (Tok (source_token ''LITERAL'' ''a'')) []],
             [source_token ''LITERAL'' ''c''])"
  by (simp add: matcher_defs match_Suc Let_def symbol_defs meta_token_def source_token_def
        new_node_def)

section \<open>A rule leaf whose rule does not match\<close>

text \<open>
  Claim C4 (a RULE leaf is ok exactly when the referenced rule matched). In
  \<^verbatim>\<open>match_terminal\<close> the result \<^verbatim>\<open>ok\<close> of \<^verbatim>\<open>match_rule\<close> is assigned and never read: with
  the grammar \<^verbatim>\<open>x := A;\<close> and a token \<^verbatim>\<open>B\<close>, \<^verbatim>\<open>match_rule\<close> returns ok = false and no
  node, and the RULE leaf for \<^verbatim>\<open>x\<close> returns ok = true with a node without children.
\<close>

theorem match_terminal_rule_leaf_ignores_ok:
  "match_rule (Suc (Suc n)) grammar_x ''x'' [source_token ''B'' ''b''] (i + 1)
     = Return (False, None, [source_token ''B'' ''b''])
   \<and> match_terminal (Suc (Suc n)) grammar_x (new_node (meta_token RULE ''x''))
       [source_token ''B'' ''b''] i
     = Return (True, Some (CSTNode (Lexeme ''x'') []), [source_token ''B'' ''b''])"
  by (simp add: matcher_defs match_Suc Let_def symbol_defs meta_token_def source_token_def
        new_node_def grammar_x_def rule_node_def base_name_def)

section \<open>Suffix rewriting\<close>

text \<open>A grammar with the single rule \<open>nm\<close>, as \<^verbatim>\<open>EBNFParser\<close> holds it after compiling.\<close>

definition one_rule_grammar :: "string \<Rightarrow> ebnf_node \<Rightarrow> parser" where
  "one_rule_grammar nm node =
     \<lparr>rules = [(nm, Some node)], symbol_table = [(nm, EBNFNonTerminalSymbol nm)],
      start_rule = Some nm, collapse_tree = True,
      lexers = lexers new_parser, tokenizer_symbols = [''LITERAL'']\<rparr>"

text \<open>
  Claim C1 (the bracket form and the suffix form build the same parser nodes). When
  the builder meets \<^verbatim>\<open>)\<close> followed by \<^verbatim>\<open>*\<close> it does set the symbol of the group's node to
  REPEATING (first statement: the recursive call for the group returns a REPEATING
  node), but its caller then assigns \<^verbatim>\<open>SEQ_MAP[STARTGROUP]\<close> to the node it got back, so
  the group of \<^verbatim>\<open>("a")*\<close> ends up a SEQUENCE, while \<^verbatim>\<open>{"a"}\<close> gives a REPEATING node. The
  two grammars then parse \<^verbatim>\<open>a a\<close> differently: the suffix form matches one \<^verbatim>\<open>a\<close> and
  fails on the rest, the bracket form matches both.
\<close>

theorem suffix_rewriting_overwritten_by_caller:
  "map_sum id fst
     (make_parser_node ''r-1''
        [meta_token LITERAL ''a'', meta_token ENDGROUP '')'', meta_token REP ''*'']
        (Some ENDGROUP) gc)
     = Inr (Some (rule_node REPEATING ''r-1'' [new_node (meta_token LITERAL ''a'')]))
   \<and> map_sum id fst
     (make_parser_node ''r''
        [meta_token STARTGROUP ''('', meta_token LITERAL ''a'', meta_token ENDGROUP '')'',
         meta_token REP ''*''] None (\<lambda>k. 0))
     = Inr (Some (rule_node SEQUENCE ''r''
              [rule_node SEQUENCE ''r-1'' [new_node (meta_token LITERAL ''a'')]]))
   \<and> map_sum id fst
     (make_parser_node ''r''
        [meta_token STARTREPEAT ''{'', meta_token LITERAL ''a'', meta_token ENDREPEAT ''}'']
        None (\<lambda>k. 0))
     = Inr (Some (rule_node SEQUENCE ''r''
              [rule_node REPEATING ''r-1'' [new_node (meta_token LITERAL ''a'')]]))
   \<and> parse (Suc (Suc (Suc (Suc (Suc n)))))
       (one_rule_grammar ''r'' (rule_node SEQUENCE ''r''
          [rule_node SEQUENCE ''r-1'' [new_node (meta_token LITERAL ''a'')]]))
       [source_token ''LITERAL'' ''a'', source_token ''LITERAL'' ''a'']
     = Raise (ValueError (NotAllConsumed [source_token ''LITERAL'' ''a'']))
   \<and> parse (Suc (Suc (Suc (Suc (Suc n)))))
       (one_rule_grammar ''r'' (rule_node SEQUENCE ''r''
          [rule_node REPEATING ''r-1'' [new_node (meta_token LITERAL ''a'')]]))
       [source_token ''LITERAL'' ''a'', source_token ''LITERAL'' ''a'']
     = Return (True,
         Some (CSTNode (Tok \<lparr>cls = Token, symbol = EBNFNonTerminalSymbol ''r'', lexeme = ''r'',
                              start = 0, finish = 0\<rparr>)
                 [CSTNode (Tok (source_token ''LITERAL'' ''a'')) [],
                  CSTNode (Tok (source_token ''LITERAL'' ''a'')) []]), [])"
  by (simp add: builder_defs matcher_defs match_Suc symbol_defs meta_token_def source_token_def
        rule_node_def one_rule_grammar_def Let_def)

section \<open>A repeat that matches zero times inside a sequence\<close>

text \<open>The rule \<^verbatim>\<open>r := "a" {"b"} "c";\<close> as \<^verbatim>\<open>make_parser_node\<close> builds it.\<close>

definition rule_a_rep_b_c :: ebnf_node where
  "rule_a_rep_b_c =
     rule_node SEQUENCE ''r''
       [new_node (meta_token LITERAL ''a''),
        rule_node REPEATING ''r-1'' [new_node (meta_token LITERAL ''b'')],
        new_node (meta_token LITERAL ''c'')]"

text \<open>
  Claim C2 (a zero-match repeat is non-match, and a wrapping sequence goes on with its
  remaining children). The first half holds: on the token \<^verbatim>\<open>c\<close> the repeat \<^verbatim>\<open>{"b"}\<close>
  returns ok = false and no node. The second half fails: \<^verbatim>\<open>match_sequence\<close> returns at
  the first child whose node is \<^verbatim>\<open>None\<close>, so for \<^verbatim>\<open>r := "a" {"b"} "c";\<close> on \<^verbatim>\<open>a c\<close> the
  child \<^verbatim>\<open>"c"\<close> is never tried and the parse ends with "not all input consumed",
  while \<^verbatim>\<open>a b c\<close> parses.
\<close>

theorem zero_match_repeat_aborts_sequence:
  "map_sum id fst
     (make_parser_node ''r''
        [meta_token LITERAL ''a'', meta_token STARTREPEAT ''{'', meta_token LITERAL ''b'',
         meta_token ENDREPEAT ''}'', meta_token LITERAL ''c''] None (\<lambda>k. 0))
     = Inr (Some rule_a_rep_b_c)
   \<and> match_repeating (Suc (Suc n)) (one_rule_grammar ''r'' rule_a_rep_b_c)
       (rule_node REPEATING ''r-1'' [new_node (meta_token LITERAL ''b'')])
       [source_token ''LITERAL'' ''c''] i
     = Return (False, None, [source_token ''LITERAL'' ''c''])
   \<and> match_sequence (Suc (Suc (Suc n))) (one_rule_grammar ''r'' rule_a_rep_b_c) ''r''
       (children rule_a_rep_b_c)
       [source_token ''LITERAL'' ''a'', source_token ''LITERAL'' ''c''] i
     = Return (False, [CSTNode (Tok (source_token ''LITERAL'' ''a'')) []],
               [source_token ''LITERAL'' ''c''])
   \<and> parse (Suc (Suc (Suc (Suc (Suc n))))) (one_rule_grammar ''r'' rule_a_rep_b_c)
       [source_token ''LITERAL'' ''a'', source_token ''LITERAL'' ''c'']
     = Raise (ValueError (NotAllConsumed [source_token ''LITERAL'' ''c'']))
   \<and> parse (Suc (Suc (Suc (Suc (Suc n))))) (one_rule_grammar ''r'' rule_a_rep_b_c)
       [source_token ''LITERAL'' ''a'', source_token ''LITERAL'' ''b'',
        source_token ''LITERAL'' ''c'']
     = Return (True,
         Some (CSTNode (Tok \<lparr>cls = Token, symbol = EBNFNonTerminalSymbol ''r'', lexeme = ''r'',
                              start = 0, finish = 0\<rparr>)
                 [CSTNode (Tok (source_token ''LITERAL'' ''a'')) [],
                  CSTNode (Tok (source_token ''LITERAL'' ''b'')) [],
                  CSTNode (Tok (source_token ''LITERAL'' ''c'')) []]), [])"
  by (simp add: builder_defs matcher_defs match_Suc symbol_defs meta_token_def source_token_def
        rule_node_def one_rule_grammar_def rule_a_rep_b_c_def Let_def)

section \<open>A repeat whose body consumes nothing\<close>

text \<open>The grammar \<^verbatim>\<open>r := {x}; x := A;\<close> as \<^verbatim>\<open>EBNFParser\<close> compiles it.\<close>

definition grammar_loop :: parser where
  "grammar_loop =
     \<lparr>rules =
        [(''r'', Some (rule_node SEQUENCE ''r''
                   [rule_node REPEATING ''r-1'' [new_node (meta_token RULE ''x'')]])),
         (''x'', Some (rule_node SEQUENCE ''x'' [new_node (meta_token TERM_sym ''A'')]))],
      symbol_table = [(''r'', EBNFNonTerminalSymbol ''r''), (''x'', EBNFNonTerminalSymbol ''x'')],
      start_rule = Some ''r'', collapse_tree = True,
      lexers = lexers new_parser, tokenizer_symbols = [''LITERAL'']\<rparr>"

lemma grammar_loop_compiled:
  "EBNFParser_init
     (table_lexer
        [('' {x}'', [meta_token STARTREPEAT ''{'', meta_token RULE ''x'',
                     meta_token ENDREPEAT ''}'']),
         ('' A'', [meta_token TERM_sym ''A''])])
     ''r := {x}; x := A;'' (\<lambda>k. 0)
   = Inr (grammar_loop, (\<lambda>k. 0)(''r'' := 1))"
  by (simp add: compiler_defs builder_defs symbol_defs meta_token_def rule_node_def
        grammar_loop_def Let_def)

text \<open>A loop whose body is ok without consuming a token never leaves.\<close>

lemma repeating_loop_stuck:
  "ms ts = None \<or> ms ts = Return (True, [], ts) \<Longrightarrow> repeating_loop k ms acc ts = None"
  by (induction k arbitrary: acc) auto

lemma loop_body_no_progress:
  "match_sequence m grammar_loop ''r-1'' [new_node (meta_token RULE ''x'')]
     [source_token ''B'' ''b''] (Suc j) = None
   \<or> match_sequence m grammar_loop ''r-1'' [new_node (meta_token RULE ''x'')]
     [source_token ''B'' ''b''] (Suc j) = Return (True, [], [source_token ''B'' ''b''])"
proof (cases m)
  case 0
  then show ?thesis by (simp add: matcher_defs)
next
  case (Suc m1)
  show ?thesis
  proof (cases m1)
    case 0
    with Suc show ?thesis
      by (simp add: matcher_defs match_Suc symbol_defs meta_token_def source_token_def
            new_node_def rule_node_def grammar_loop_def Let_def)
  next
    case m1: (Suc m2)
    show ?thesis
    proof (cases m2)
      case 0
      with Suc m1 show ?thesis
        by (simp add: matcher_defs match_Suc symbol_defs meta_token_def source_token_def
              new_node_def rule_node_def grammar_loop_def base_name_def Let_def)
    next
      case (Suc m3)
      with \<open>m = Suc m1\<close> m1 show ?thesis
        by (simp add: matcher_defs match_Suc symbol_defs meta_token_def source_token_def
              new_node_def rule_node_def grammar_loop_def base_name_def Let_def)
    qed
  qed
qed

text \<open>
  Claim C5 (parsing always terminates; the loop of match_repeating always exits). With
  the grammar \<^verbatim>\<open>r := {x}; x := A;\<close> and the input token \<^verbatim>\<open>B\<close>, one pass of the loop body
  of \<^verbatim>\<open>match_repeating\<close> is ok, finds nothing and leaves the tokens as they were (the
  RULE leaf reports ok although \<^verbatim>\<open>x\<close> did not match), so the loop starts again in the
  same state: \<^verbatim>\<open>parse\<close> has no result, whatever the fuel.
\<close>

theorem parse_does_not_terminate:
  "match_sequence (Suc (Suc (Suc m))) grammar_loop ''r-1'' [new_node (meta_token RULE ''x'')]
     [source_token ''B'' ''b''] (Suc j) = Return (True, [], [source_token ''B'' ''b''])
   \<and> (\<forall>n. parse n grammar_loop [source_token ''B'' ''b''] = None)"
proof
  show "match_sequence (Suc (Suc (Suc m))) grammar_loop ''r-1'' [new_node (meta_token RULE ''x'')]
     [source_token ''B'' ''b''] (Suc j) = Return (True, [], [source_token ''B'' ''b''])"
    by (simp add: matcher_defs match_Suc symbol_defs meta_token_def source_token_def
          new_node_def rule_node_def grammar_loop_def base_name_def Let_def)
next
  have loop: "repeating_loop k
      (\<lambda>ts. match_sequence k grammar_loop ''r-1'' [new_node (meta_token RULE ''x'')] ts (Suc j))
      [] [source_token ''B'' ''b''] = None" for k j
    by (rule repeating_loop_stuck) (rule loop_body_no_progress)
  show "\<forall>n. parse n grammar_loop [source_token ''B'' ''b''] = None"
  proof
    fix n
    show "parse n grammar_loop [source_token ''B'' ''b''] = None"
    proof (cases n)
      case 0
      then show ?thesis
        by (simp add: parse_def grammar_loop_def match_rule_def match_rule_body_def
              rules_get_def rule_node_def)
    next
      case (Suc n1)
      show ?thesis
      proof (cases n1)
        case 0
        with Suc show ?thesis
          by (simp add: matcher_defs match_Suc symbol_defs meta_token_def source_token_def
                new_node_def rule_node_def grammar_loop_def base_name_def Let_def)
      next
        case n1: (Suc n2)
        have "match_repeating n2 grammar_loop
                (rule_node REPEATING ''r-1'' [new_node (meta_token RULE ''x'')])
                [source_token ''B'' ''b''] (Suc (Suc (Suc (Suc 0)))) = None"
          using loop[of n2 "Suc (Suc (Suc (Suc 0)))"]
          by (simp add: match_repeating_def match_repeating_body_def rule_node_def)
        with Suc n1 show ?thesis
          by (simp add: match_rule_def match_sequence_def match_nonterminal_def
                match_rule_body_def match_body_def match_nonterminal_body_def
                match_sequence_body_def rules_get_def alternate_def optional_def
                repeating_def oneormore_def parse_def match_Suc symbol_defs meta_token_def
                source_token_def new_node_def rule_node_def grammar_loop_def base_name_def
                Let_def)
      qed
    qed
  qed
qed

section \<open>The at-least-once group on an empty input\<close>

text \<open>
  The grammar \<^verbatim>\<open>r := < "a" >;\<close> as \<^verbatim>\<open>EBNFParser\<close> compiles it (\<open>CHR 0x22\<close> is the double
  quote; the lexer strips the quotes from the lexeme of a literal).
\<close>

definition rule_atl :: ebnf_node where
  "rule_atl =
     rule_node SEQUENCE ''r''
       [rule_node ATLEASTONCE ''r-1'' [new_node (meta_token LITERAL ''a'')]]"

definition grammar_atl :: parser where
  "grammar_atl = one_rule_grammar ''r'' rule_atl"

lemma grammar_atl_compiled:
  "EBNFParser_init
     (table_lexer
        [('' < '' @ [CHR 0x22] @ ''a'' @ [CHR 0x22] @ '' >'',
          [meta_token STARTATL ''<'', meta_token LITERAL ''a'', meta_token ENDATL ''>''])])
     (''r := < '' @ [CHR 0x22] @ ''a'' @ [CHR 0x22] @ '' >;'') (\<lambda>k. 0)
   = Inr (grammar_atl, (\<lambda>k. 0)(''r'' := 1))"
  by (simp add: compiler_defs builder_defs symbol_defs meta_token_def rule_node_def
        grammar_atl_def rule_atl_def one_rule_grammar_def Let_def)

text \<open>
  The three exceptions raised for an at-least-once group without a match: in
  \<^verbatim>\<open>match_one_or_more\<close>, in \<^verbatim>\<open>match_nonterminal\<close> and in \<^verbatim>\<open>match_sequence\<close>.
\<close>

fun required_group_missing :: "error \<Rightarrow> bool" where
  "required_group_missing (SyntaxError (MissingGroup ts)) = True"
| "required_group_missing (SyntaxError NotAtLeastOnce) = True"
| "required_group_missing (SyntaxError (ExpectedFoundNothing node)) = True"
| "required_group_missing e = False"

text \<open>
  Claim C9 as stated (the empty input fails with the error of the at-least-once
  group) does not hold: \<^verbatim>\<open>match\<close> raises "Unexpected end of tokens" for the root node
  of the rule before any group is looked at.
\<close>

theorem empty_input_error_is_not_required_group:
  "parse (Suc 0) grammar_atl [] = Raise (SyntaxError (UnexpectedEndOfTokens rule_atl))
   \<and> \<not> required_group_missing (SyntaxError (UnexpectedEndOfTokens rule_atl))"
  by (simp add: matcher_defs match_Suc symbol_defs meta_token_def rule_node_def
        grammar_atl_def rule_atl_def one_rule_grammar_def Let_def)

text \<open>
  Claim C9, amended: for the grammar \<^verbatim>\<open>r := < "a" >;\<close> the empty input fails, for every
  fuel, with the \<^verbatim>\<open>SyntaxError\<close> "Unexpected end of tokens" that \<^verbatim>\<open>match\<close> raises for
  the root node of \<^verbatim>\<open>r\<close>; the at-least-once group raises its own "Missing group" error
  on an input that is not empty and whose first token is not \<^verbatim>\<open>a\<close>.
\<close>

theorem empty_input_unexpected_end:
  "match (Suc n) grammar_atl rule_atl [] i = Raise (SyntaxError (UnexpectedEndOfTokens rule_atl))
   \<and> parse (Suc n) grammar_atl [] = Raise (SyntaxError (UnexpectedEndOfTokens rule_atl))
   \<and> (lexeme t \<noteq> ''a'' \<longrightarrow>
        parse (Suc (Suc (Suc n))) grammar_atl (t # ts) = Raise (SyntaxError (MissingGroup (t # ts))))"
  by (simp add: matcher_defs match_Suc symbol_defs meta_token_def rule_node_def
        grammar_atl_def rule_atl_def one_rule_grammar_def base_name_def new_node_def Let_def)

theorem empty_input_unexpected_end_witness:
  "match (Suc 0) grammar_atl rule_atl [] 1 = Raise (SyntaxError (UnexpectedEndOfTokens rule_atl))
   \<and> parse (Suc 0) grammar_atl [] = Raise (SyntaxError (UnexpectedEndOfTokens rule_atl))
   \<and> lexeme (source_token ''LITERAL'' ''b'') \<noteq> ''a''
   \<and> parse (Suc (Suc (Suc 0))) grammar_atl [source_token ''LITERAL'' ''b'']
       = Raise (SyntaxError (MissingGroup [source_token ''LITERAL'' ''b'']))"
  using empty_input_unexpected_end [of 0 1 "source_token ''LITERAL'' ''b''" "[]"]
  by (simp add: source_token_def)

section \<open>References to rules that are never defined\<close>

subsection \<open>The compiler does not look at the names in a rule body\<close>

text \<open>
  Two meta-tokens with the same symbol, whatever their lexemes: a reference to a rule
  and a reference to any other name are both \<^verbatim>\<open>RULE\<close> tokens. Two results of
  \<^verbatim>\<open>make_parser_node\<close> are alike when both raise the same error, or both return a node (or
  both none), remaining tokens with the same symbols and the same group counter.
\<close>

definition same_symbol :: "token \<Rightarrow> token \<Rightarrow> bool" where
  "same_symbol a b = (symbol a = symbol b)"

abbreviation built_alike ::
    "error + (ebnf_node option \<times> token list \<times> counter) \<Rightarrow>
     error + (ebnf_node option \<times> token list \<times> counter) \<Rightarrow> bool" where
  "built_alike \<equiv>
     rel_sum (=) (rel_prod (rel_option (\<lambda>a b. True)) (rel_prod (list_all2 same_symbol) (=)))"

abbreviation loop_alike ::
    "error + (ebnf_node \<times> token list \<times> counter) \<Rightarrow>
     error + (ebnf_node \<times> token list \<times> counter) \<Rightarrow> bool" where
  "loop_alike \<equiv> rel_sum (=) (rel_prod (\<lambda>a b. True) (rel_prod (list_all2 same_symbol) (=)))"

lemma close_group_alike:
  assumes "same_symbol first first'" and "list_all2 same_symbol rest rest'"
  shows "loop_alike (close_group nm endtoken this first rest gc)
                    (close_group nm endtoken this' first' rest' gc)"
proof (cases rest)
  case Nil
  with assms show ?thesis
    by (auto simp: close_group_def same_symbol_def Let_def split: option.splits)
next
  case (Cons nxt tail)
  with assms(2) obtain nxt' tail' where r': "rest' = nxt' # tail'"
    and n: "same_symbol nxt nxt'" and t: "list_all2 same_symbol tail tail'"
    by (cases rest') auto
  from assms(1) n t assms(2) show ?thesis
    unfolding Cons r' close_group_def same_symbol_def Let_def
    by (auto split: option.splits)
qed

lemma loop_alike_cases:
  assumes "loop_alike r r'"
  obtains (err) e where "r = Inl e" "r' = Inl e"
    | (ok) this rest gc this' rest' where "r = Inr (this, rest, gc)" "r' = Inr (this', rest', gc)"
        "list_all2 same_symbol rest rest'"
  using assms by (cases r; cases r') auto

lemma built_alike_cases:
  assumes "built_alike r r'"
  obtains (err) e where "r = Inl e" "r' = Inl e"
    | (none) rest gc rest' where "r = Inr (None, rest, gc)" "r' = Inr (None, rest', gc)"
        "list_all2 same_symbol rest rest'"
    | (some) c rest gc c' rest' where "r = Inr (Some c, rest, gc)" "r' = Inr (Some c', rest', gc)"
        "list_all2 same_symbol rest rest'"
proof (cases r)
  case (Inl e)
  with assms have "r' = Inl e" by (cases r') auto
  with Inl show ?thesis by (rule err)
next
  case (Inr v)
  obtain n rest gc where v: "v = (n, rest, gc)" by (cases v)
  from assms Inr v obtain n' rest' where r': "r' = Inr (n', rest', gc)"
    and n: "rel_option (\<lambda>a b. True) n n'" and l: "list_all2 same_symbol rest rest'"
    by (cases r') auto
  show ?thesis
  proof (cases n)
    case None
    with n have "n' = None" by (cases n') auto
    with Inr v r' None l show ?thesis by (auto intro: none)
  next
    case (Some c)
    with n obtain c' where "n' = Some c'" by (cases n') auto
    with Inr v r' Some l show ?thesis by (auto intro: some)
  qed
qed

lemma builder_alike:
  "list_all2 same_symbol tokens tokens' \<Longrightarrow>
     built_alike (make_parser_node nm tokens endtoken gc) (make_parser_node nm tokens' endtoken gc)"
  "list_all2 same_symbol tokens tokens' \<Longrightarrow>
     loop_alike (parser_node_loop nm endtoken this tokens gc)
                (parser_node_loop nm endtoken this' tokens' gc)"
proof (induct nm tokens endtoken gc and nm endtoken this tokens gc
       arbitrary: tokens' and this' tokens'
       rule: make_parser_node_parser_node_loop.induct)
  case (1 nm tokens endtoken groupcount)
  show ?case
  proof (cases "tokens = []")
    case True
    with "1.prems" show ?thesis by (simp add: make_parser_node.simps)
  next
    case False
    with "1.prems" have ne: "tokens' \<noteq> []" by auto
    from "1.hyps"[OF False "1.prems",
           of "new_node \<lparr>cls = EBNFToken, symbol = SEQUENCE, lexeme = nm, start = 0, finish = 0\<rparr>"]
    show ?thesis
    proof (cases rule: loop_alike_cases)
      case (err e)
      with False ne show ?thesis by (simp add: make_parser_node.simps)
    next
      case (ok this rest gc this' rest')
      with False ne show ?thesis by (simp add: make_parser_node.simps)
    qed
  qed
next
  case (2 nm endtoken this groupcount)
  then show ?case by simp
next
  case (3 nm endtoken this first rest groupcount)
  from "3.prems" obtain first' rest' where t': "tokens' = first' # rest'"
    and f: "same_symbol first first'" and r: "list_all2 same_symbol rest rest'"
    by (cases tokens') auto
  from f have sy: "symbol first' = symbol first" by (simp add: same_symbol_def)
  note unfold = parser_node_loop.simps(2)
  show ?case
  proof (cases "symbol first \<in> set [STARTGROUP, STARTREPEAT, STARTOPTION, STARTATL]")
    case True
    define key where "key = base_name nm"
    define gc1 where "gc1 = groupcount(key := groupcount key + 1)"
    show ?thesis
    proof (cases "groupings (symbol first)")
      case None
      with True sy show ?thesis unfolding t' by (simp add: unfold Let_def)
    next
      case (Some closer)
      have step: "parser_node_loop nm endtoken th (f # ts) groupcount =
          (case make_parser_node (key @ ''-'' @ string_of_nat (gc1 key)) ts (Some closer) gc1 of
             Inl e \<Rightarrow> Inl e
           | Inr (None, tokens', gc2) \<Rightarrow> parser_node_loop nm endtoken th tokens' gc2
           | Inr (Some child, tokens', gc2) \<Rightarrow>
              (case SEQ_MAP (symbol first) of
                 None \<Rightarrow> Inl KeyError
               | Some s \<Rightarrow> parser_node_loop nm endtoken (add th (set_symbol child s)) tokens' gc2))"
        if "symbol f = symbol first" for th f ts
        unfolding unfold that using True Some by (simp add: Let_def key_def gc1_def)
      from "3.hyps"(1)[OF True key_def gc1_def Some r]
      show ?thesis
      proof (cases rule: built_alike_cases)
        case (err e)
        show ?thesis unfolding t' step[OF refl] step[OF sy] err by simp
      next
        case (none toks gc2 toks')
        from "3.hyps"(2)[OF True key_def gc1_def Some none(1) refl refl refl none(3), of this']
        have "loop_alike (parser_node_loop nm endtoken this toks gc2)
                         (parser_node_loop nm endtoken this' toks' gc2)" by simp
        then show ?thesis unfolding t' step[OF refl] step[OF sy] none(1,2) by simp
      next
        case (some c toks gc2 c' toks')
        show ?thesis
        proof (cases "SEQ_MAP (symbol first)")
          case None
          show ?thesis unfolding t' step[OF refl] step[OF sy] some(1,2) None by simp
        next
          case s: (Some s)
          from "3.hyps"(3)[OF True key_def gc1_def Some some(1) refl refl refl s some(3),
                 of "add this' (set_symbol c' s)"]
          have "loop_alike (parser_node_loop nm endtoken (add this (set_symbol c s)) toks gc2)
                           (parser_node_loop nm endtoken (add this' (set_symbol c' s)) toks' gc2)"
            by simp
          then show ?thesis unfolding t' step[OF refl] step[OF sy] some(1,2) s by simp
        qed
      qed
    qed
  next
    case False
    show ?thesis
    proof (cases "symbol first \<in> set [ENDGROUP, ENDREPEAT, ENDOPTION, ENDATL]")
      case True
      with False sy close_group_alike[OF f r, of nm endtoken this groupcount this']
      show ?thesis unfolding t' by (simp add: unfold)
    next
      case notcloser: False
      show ?thesis
      proof (cases "symbol first = OR")
        case True
        from "3.hyps"(4)[OF False notcloser True r,
               of "add (set_symbol this' ALTERNATING) (new_node first')"]
        show ?thesis using False notcloser True sy unfolding t' by (simp add: unfold)
      next
        case notor: False
        from "3.hyps"(5)[OF False notcloser notor r, of "add this' (new_node first')"]
        show ?thesis using False notcloser notor sy unfolding t' by (simp add: unfold)
      qed
    qed
  qed
qed

text \<open>
  Two parsers with the same rule names in the same order, the same symbol table, start
  rule and tokenizer state; only the parser nodes stored for the rules may differ.
\<close>

definition same_names :: "parser \<Rightarrow> parser \<Rightarrow> bool" where
  "same_names p q =
     (map fst (rules p) = map fst (rules q) \<and> symbol_table p = symbol_table q
      \<and> start_rule p = start_rule q \<and> collapse_tree p = collapse_tree q
      \<and> lexers p = lexers q \<and> tokenizer_symbols p = tokenizer_symbols q)"

lemma same_names_update:
  "same_names p q \<Longrightarrow>
     same_names
       (p\<lparr>rules := AList.update key n (rules p),
          symbol_table := AList.update key s (symbol_table p)\<rparr>)
       (q\<lparr>rules := AList.update key n' (rules q),
          symbol_table := AList.update key s (symbol_table q)\<rparr>)"
  by (simp add: same_names_def update_keys)

lemma rel_sum_eq_cases:
  assumes "rel_sum (=) R r r'"
  obtains (err) e where "r = Inl e" "r' = Inl e"
    | (ok) v v' where "r = Inr v" "r' = Inr v'" "R v v'"
  using assms by (cases r; cases r') auto

lemma init_rules_alike:
  assumes lex: "\<And>val. rel_sum (=) (list_all2 same_symbol) (lexer val) (lexer' val)"
  shows "same_names p p' \<Longrightarrow>
     rel_sum (=) (rel_prod same_names (=))
       (init_rules lexer data p gc) (init_rules lexer' data p' gc)"
proof (induction data arbitrary: p p' gc)
  case Nil
  then show ?case by simp
next
  case (Cons parts data)
  show ?case
  proof (cases "\<exists>key0 val. parts = [key0, val]")
    case False
    then show ?thesis
      by (cases parts rule: list.exhaust; simp split: list.splits)
  next
    case True
    then obtain key0 val where parts: "parts = [key0, val]" by auto
    define key where "key = strip key0"
    note sn = Cons.prems[unfolded same_names_def]
    from sn have st: "symbol_table p' = symbol_table p"
      and ts: "tokenizer_symbols p' = tokenizer_symbols p" and lx: "lexers p' = lexers p" by simp_all
    show ?thesis
    proof (cases "key \<in> set (map fst (symbol_table p))")
      case True
      with st show ?thesis by (simp add: parts key_def)
    next
      case notin: False
      show ?thesis
      proof (cases "islower key")
        case lower: True
        from lex[of val] show ?thesis
        proof (cases rule: rel_sum_eq_cases)
          case (err e)
          with notin lower st show ?thesis by (simp add: parts key_def Let_def)
        next
          case Inr: (ok toks toks')
          from builder_alike(1)[OF Inr(3), of key None gc] show ?thesis
          proof (cases rule: built_alike_cases)
            case (err e)
            with notin lower st Inr(1,2) show ?thesis by (simp add: parts key_def Let_def)
          next
            case (none rest gc1 rest')
            from none(3) have r: "rest' = [] \<longleftrightarrow> rest = []" by auto
            have "rel_sum (=) (rel_prod same_names (=))
                (init_rules lexer data
                   (p\<lparr>rules := AList.update key None (rules p),
                      symbol_table := AList.update key (EBNFNonTerminalSymbol key) (symbol_table p)\<rparr>)
                   gc1)
                (init_rules lexer' data
                   (p'\<lparr>rules := AList.update key None (rules p'),
                      symbol_table := AList.update key (EBNFNonTerminalSymbol key) (symbol_table p')\<rparr>)
                   gc1)"
              by (rule Cons.IH) (rule same_names_update, rule Cons.prems)
            then show ?thesis
              using notin lower st Inr(1,2) none(1,2) r
              by (simp add: parts key_def[symmetric] Let_def)
          next
            case (some c rest gc1 c' rest')
            from some(3) have r: "rest' = [] \<longleftrightarrow> rest = []" by auto
            have "rel_sum (=) (rel_prod same_names (=))
                (init_rules lexer data
                   (p\<lparr>rules := AList.update key (Some c) (rules p),
                      symbol_table := AList.update key (EBNFNonTerminalSymbol key) (symbol_table p)\<rparr>)
                   gc1)
                (init_rules lexer' data
                   (p'\<lparr>rules := AList.update key (Some c') (rules p'),
                      symbol_table := AList.update key (EBNFNonTerminalSymbol key) (symbol_table p')\<rparr>)
                   gc1)"
              by (rule Cons.IH) (rule same_names_update, rule Cons.prems)
            then show ?thesis
              using notin lower st Inr(1,2) some(1,2) r
              by (simp add: parts key_def[symmetric] Let_def)
          qed
        qed
      next
        case notlower: False
        show ?thesis
        proof (cases "isupper key")
          case True
          have "same_names
                  (p\<lparr>tokenizer_symbols := tokenizer_symbols p @ [key],
                     lexers := lexers p @ [(strip val, Some key)],
                     symbol_table := AList.update key (EBNFTerminalSymbol key) (symbol_table p)\<rparr>)
                  (p'\<lparr>tokenizer_symbols := tokenizer_symbols p @ [key],
                     lexers := lexers p @ [(strip val, Some key)],
                     symbol_table := AList.update key (EBNFTerminalSymbol key) (symbol_table p)\<rparr>)"
            using Cons.prems by (simp add: same_names_def)
          from Cons.IH[OF this] show ?thesis
            using notin notlower True st ts lx
            by (simp add: parts key_def[symmetric] Let_def)
        next
          case False
          from Cons.IH[OF Cons.prems] show ?thesis
            using notin notlower False st
            by (simp add: parts key_def[symmetric] Let_def)
        qed
      qed
    qed
  qed
qed

lemma EBNFParser_init_alike:
  assumes "\<And>val. rel_sum (=) (list_all2 same_symbol) (lexer val) (lexer' val)"
  shows "rel_sum (=) (rel_prod same_names (=))
           (EBNFParser_init lexer text0 gc) (EBNFParser_init lexer' text0 gc)"
proof -
  define data where
    "data = map (split_define []) (filter (\<lambda>line. strip line \<noteq> []) (split_char (CHR '';'') [] text0))"
  have "rel_sum (=) (rel_prod same_names (=))
          (init_rules lexer data new_parser gc) (init_rules lexer' data new_parser gc)"
    by (rule init_rules_alike) (rule assms, simp add: same_names_def)
  then show ?thesis
  proof (cases rule: rel_sum_eq_cases)
    case (err e)
    then show ?thesis by (simp add: EBNFParser_init_def data_def[symmetric] Let_def)
  next
    case Inr: (ok v v')
    obtain q g where v: "v = (q, g)" by (cases v)
    obtain q' g' where v': "v' = (q', g')" by (cases v')
    from Inr(3) v v' have g: "g' = g" and sn: "same_names q q'" by auto
    from sn have keys: "map fst (rules q) = map fst (rules q')" by (simp add: same_names_def)
    show ?thesis
    proof (cases "rules q")
      case Nil
      with keys have "rules q' = []" by simp
      with Nil Inr(1,2) v v' g show ?thesis
        by (simp add: EBNFParser_init_def data_def[symmetric] Let_def)
    next
      case (Cons kv rest)
      with keys obtain kv' rest' where c': "rules q' = kv' # rest'" and k: "fst kv' = fst kv"
        by (cases "rules q'") auto
      with Cons Inr(1,2) v v' g sn show ?thesis
        by (cases kv; cases kv')
           (simp add: EBNFParser_init_def data_def[symmetric] Let_def same_names_def)
    qed
  qed
qed

text \<open>Every rule name of a compiled grammar is in its symbol table.\<close>

lemma init_rules_names:
  "init_rules lexer data p gc = Inr (q, gc') \<Longrightarrow>
   set (map fst (rules p)) \<subseteq> set (map fst (symbol_table p)) \<Longrightarrow>
     set (map fst (rules q)) \<subseteq> set (map fst (symbol_table q))"
proof (induction data arbitrary: p gc)
  case Nil
  then show ?case by simp
next
  case (Cons parts data)
  show ?case
  proof (cases "\<exists>key0 val. parts = [key0, val]")
    case False
    with Cons.prems(1) show ?thesis
      by (cases parts rule: list.exhaust; simp split: list.splits)
  next
    case True
    then obtain key0 val where parts: "parts = [key0, val]" by auto
    from Cons.prems show ?thesis
      unfolding parts
      by (auto simp: Let_def dom_update update_keys simp del: set_map
               split: if_splits sum.splits option.splits prod.splits
               dest!: Cons.IH)
  qed
qed

lemma EBNFParser_init_names:
  assumes "EBNFParser_init lexer text0 gc = Inr (self, gc')"
    and "map_of (symbol_table self) name = None"
  shows "rules_get self name = None"
proof -
  from assms(1) obtain q where q: "init_rules lexer
          (map (split_define []) (filter (\<lambda>line. strip line \<noteq> []) (split_char (CHR '';'') [] text0)))
          new_parser gc = Inr (q, gc')"
    and self: "rules self = rules q" "symbol_table self = symbol_table q"
    by (auto simp: EBNFParser_init_def Let_def split: sum.splits list.splits prod.splits)
  have "set (map fst (rules q)) \<subseteq> set (map fst (symbol_table q))"
    by (rule init_rules_names[OF q]) (simp add: new_parser_def)
  moreover from assms(2) self have "name \<notin> set (map fst (symbol_table q))"
    by (simp add: map_of_eq_None_iff)
  ultimately have "name \<notin> fst ` set (rules self)" using self by auto
  then have "map_of (rules self) name = None" by (simp add: map_of_eq_None_iff)
  then show ?thesis by (simp add: rules_get_def)
qed

lemma undefined_rule_raises:
  assumes "rules_get self name = None"
  shows "match_rule n self name tokens i = Raise (SyntaxError (NoRuleFor name))"
  using assms by (simp add: match_rule_def match_rule_body_def)

lemma undefined_leaf_raises:
  assumes "rules_get self name = None"
    and "symbol (token leaf) = RULE" and "lexeme (token leaf) = name" and "tokens \<noteq> []"
  shows "match (Suc n) self leaf tokens i = Raise (SyntaxError (NoRuleFor name))"
proof -
  from assms(4) obtain t ts where t: "tokens = t # ts" by (cases tokens) auto
  from assms(2) have tm: "is_terminal (symbol (token leaf))" by (simp add: RULE_def)
  show ?thesis
    unfolding match_Suc match_body_def match_terminal_def match_terminal_body_def
    using tm assms(2,3) undefined_rule_raises[OF assms(1)] by (simp add: t)
qed

subsection \<open>A parser with and without a rule for a name\<close>

text \<open>
  Two outcomes of a match operation are the same, or the first one is the error
  "No rule for" the name, or the first one is the \<^verbatim>\<open>KeyError\<close> of the symbol table
  (\<^verbatim>\<open>match_nonterminal\<close> looks up the part of a node name before the first dash, which
  may be the name).
\<close>

definition same_or_raises :: "string \<Rightarrow> 'a outcome \<Rightarrow> 'a outcome \<Rightarrow> bool" where
  "same_or_raises name r1 r2 =
     (r1 = r2 \<or> r1 = Raise (SyntaxError (NoRuleFor name)) \<or> r1 = Raise KeyError)"

lemma same_or_raises_refl [simp]: "same_or_raises name r r"
  by (simp add: same_or_raises_def)

lemma same_or_raises_cases:
  assumes "same_or_raises name r1 r2"
  obtains (same) "r1 = r2"
    | (no_rule) "r1 = Raise (SyntaxError (NoRuleFor name))"
    | (key) "r1 = Raise KeyError"
  using assms by (auto simp: same_or_raises_def)

lemma sequence_loop_sor:
  assumes "\<And>this ts. same_or_raises name (m1 this ts) (m2 this ts)"
  shows "same_or_raises name (sequence_loop m1 orig ok found expected tokens)
                            (sequence_loop m2 orig ok found expected tokens)"
proof (induction expected arbitrary: ok found tokens)
  case Nil
  show ?case by simp
next
  case (Cons this expected)
  from assms[of this tokens] show ?case
  proof (cases rule: same_or_raises_cases)
    case same
    show ?thesis
      by (simp add: same Cons.IH split: option.splits sum.splits prod.splits)
  next
    case no_rule
    then show ?thesis by (simp add: same_or_raises_def)
  next
    case key
    then show ?thesis by (simp add: same_or_raises_def)
  qed
qed

lemma alternate_loop_sor:
  assumes "\<And>alt ts. same_or_raises name (ms1 alt ts) (ms2 alt ts)"
  shows "same_or_raises name (alternate_loop ms1 tok orig alts) (alternate_loop ms2 tok orig alts)"
proof (induction alts)
  case Nil
  show ?case by simp
next
  case (Cons alt alts)
  from assms[of alt orig] show ?case
  proof (cases rule: same_or_raises_cases)
    case same
    show ?thesis
      by (simp add: same Cons.IH split: option.splits sum.splits prod.splits error.splits)
  next
    case no_rule
    then show ?thesis by (simp add: same_or_raises_def)
  next
    case key
    then show ?thesis by (simp add: same_or_raises_def)
  qed
qed

lemma repeating_loop_sor:
  assumes "\<And>ts. same_or_raises name (ms1 ts) (ms2 ts)"
  shows "same_or_raises name (repeating_loop k ms1 acc tokens) (repeating_loop k ms2 acc tokens)"
proof (induction k arbitrary: acc tokens)
  case 0
  show ?case by simp
next
  case (Suc k)
  from assms[of tokens] show ?case
  proof (cases rule: same_or_raises_cases)
    case same
    show ?thesis
      by (simp add: same Suc.IH split: option.splits sum.splits prod.splits)
  next
    case no_rule
    then show ?thesis by (simp add: same_or_raises_def)
  next
    case key
    then show ?thesis by (simp add: same_or_raises_def)
  qed
qed

lemma one_or_more_loop_sor:
  assumes "\<And>ts. same_or_raises name (ms1 ts) (ms2 ts)"
  shows "same_or_raises name (one_or_more_loop k ms1 acc cs tokens)
                            (one_or_more_loop k ms2 acc cs tokens)"
proof (induction k arbitrary: acc cs tokens)
  case 0
  show ?case by simp
next
  case (Suc k)
  from assms[of tokens] show ?case
  proof (cases rule: same_or_raises_cases)
    case same
    show ?thesis
      by (simp add: same Suc.IH split: option.splits sum.splits prod.splits)
  next
    case no_rule
    then show ?thesis by (simp add: same_or_raises_def)
  next
    case key
    then show ?thesis by (simp add: same_or_raises_def)
  qed
qed

text \<open>A call whose result is passed on: an error of the call is the error of the caller.\<close>

lemma call_sor:
  assumes "same_or_raises name r1 r2"
    and "\<And>v. same_or_raises name (f1 v) (f2 v)"
  shows "same_or_raises name
           (case r1 of None \<Rightarrow> None | Some (Inl e) \<Rightarrow> Raise e | Some (Inr v) \<Rightarrow> f1 v)
           (case r2 of None \<Rightarrow> None | Some (Inl e) \<Rightarrow> Raise e | Some (Inr v) \<Rightarrow> f2 v)"
  using assms(1)
proof (cases rule: same_or_raises_cases)
  case same
  show ?thesis by (simp add: same assms(2) split: option.splits sum.splits)
next
  case no_rule
  then show ?thesis by (simp add: same_or_raises_def)
next
  case key
  then show ?thesis by (simp add: same_or_raises_def)
qed

lemma match_sequence_body_sor:
  assumes "\<And>node ts j. same_or_raises name (m1 node ts j) (m2 node ts j)"
  shows "same_or_raises name (match_sequence_body m1 nm originals tokens i)
                            (match_sequence_body m2 nm originals tokens i)"
  unfolding match_sequence_body_def by (rule sequence_loop_sor) (rule assms)

lemma match_rule_body_sor:
  assumes "\<And>node ts j. same_or_raises name (m1 node ts j) (m2 node ts j)"
    and "rules_get p1 name = None"
    and "\<And>k. k \<noteq> name \<Longrightarrow> rules_get p2 k = rules_get p1 k"
  shows "same_or_raises name (match_rule_body m1 p1 rule tokens i)
                            (match_rule_body m2 p2 rule tokens i)"
proof (cases "rule = name")
  case True
  with assms(2) show ?thesis by (simp add: match_rule_body_def same_or_raises_def)
next
  case False
  show ?thesis
  proof (cases "rules_get p1 rule")
    case None
    with assms(3)[OF False] show ?thesis by (simp add: match_rule_body_def)
  next
    case (Some parser_node)
    have "same_or_raises name
       (case m1 parser_node tokens (i + 1) of None \<Rightarrow> None | Some (Inl e) \<Rightarrow> Raise e
        | Some (Inr v) \<Rightarrow>
            (case v of (ok, node, tokens') \<Rightarrow>
               if i = 0 \<and> tokens' \<noteq> [] then Raise (ValueError (NotAllConsumed (take 3 tokens')))
               else Return (ok, node, tokens')))
       (case m2 parser_node tokens (i + 1) of None \<Rightarrow> None | Some (Inl e) \<Rightarrow> Raise e
        | Some (Inr v) \<Rightarrow>
            (case v of (ok, node, tokens') \<Rightarrow>
               if i = 0 \<and> tokens' \<noteq> [] then Raise (ValueError (NotAllConsumed (take 3 tokens')))
               else Return (ok, node, tokens')))"
      by (rule call_sor) (rule assms(1), simp)
    with Some assms(3)[OF False] show ?thesis
      by (simp add: match_rule_body_def split: prod.splits)
  qed
qed

lemma match_terminal_body_sor:
  assumes "\<And>r ts j. same_or_raises name (mr1 r ts j) (mr2 r ts j)"
    and "collapse_tree p1 = collapse_tree p2"
  shows "same_or_raises name (match_terminal_body mr1 p1 parser_node tokens i)
                            (match_terminal_body mr2 p2 parser_node tokens i)"
proof (cases tokens)
  case Nil
  then show ?thesis by (simp add: match_terminal_body_def)
next
  case (Cons t ts)
  show ?thesis
  proof (cases "symbol (token parser_node) = RULE")
    case True
    from assms(1)[of "lexeme (token parser_node)" tokens "i + 1"] show ?thesis
    proof (cases rule: same_or_raises_cases)
      case same
      with True Cons show ?thesis unfolding match_terminal_body_def assms(2) by simp
    next
      case no_rule
      with True Cons show ?thesis by (simp add: match_terminal_body_def same_or_raises_def)
    next
      case key
      with True Cons show ?thesis by (simp add: match_terminal_body_def same_or_raises_def)
    qed
  next
    case False
    with Cons show ?thesis by (simp add: match_terminal_body_def)
  qed
qed

lemma match_optional_body_sor:
  assumes "\<And>nm cs ts j. same_or_raises name (ms1 nm cs ts j) (ms2 nm cs ts j)"
  shows "same_or_raises name (match_optional_body ms1 parser_node tokens i)
                            (match_optional_body ms2 parser_node tokens i)"
  unfolding match_optional_body_def by (rule call_sor) (rule assms, simp)

lemma match_alternate_body_sor:
  assumes "\<And>nm cs ts j. same_or_raises name (ms1 nm cs ts j) (ms2 nm cs ts j)"
  shows "same_or_raises name (match_alternate_body ms1 parser_node tokens i)
                            (match_alternate_body ms2 parser_node tokens i)"
  unfolding match_alternate_body_def
  by (cases "tokens = []") (simp_all add: alternate_loop_sor assms)

lemma match_repeating_body_sor:
  assumes "\<And>nm cs ts j. same_or_raises name (ms1 nm cs ts j) (ms2 nm cs ts j)"
  shows "same_or_raises name (match_repeating_body k ms1 parser_node tokens i)
                            (match_repeating_body k ms2 parser_node tokens i)"
  unfolding match_repeating_body_def
  by (rule call_sor) (rule repeating_loop_sor, rule assms, simp)

lemma match_one_or_more_body_sor:
  assumes "\<And>nm cs ts j. same_or_raises name (ms1 nm cs ts j) (ms2 nm cs ts j)"
  shows "same_or_raises name (match_one_or_more_body k ms1 parser_node tokens i)
                            (match_one_or_more_body k ms2 parser_node tokens i)"
proof -
  have loop: "same_or_raises name
      (case one_or_more_loop k (\<lambda>ts. ms1 (lexeme (token parser_node)) (children parser_node) ts j)
              [] cs tokens' of
         None \<Rightarrow> None | Some (Inl e) \<Rightarrow> Raise e
       | Some (Inr v) \<Rightarrow> (case v of (acc, tokens'') \<Rightarrow>
           if acc \<noteq> [] then Return (True, Some (CSTNode (Tok (token parser_node)) acc), tokens'')
           else Return (False, None, tokens'')))
      (case one_or_more_loop k (\<lambda>ts. ms2 (lexeme (token parser_node)) (children parser_node) ts j)
              [] cs tokens' of
         None \<Rightarrow> None | Some (Inl e) \<Rightarrow> Raise e
       | Some (Inr v) \<Rightarrow> (case v of (acc, tokens'') \<Rightarrow>
           if acc \<noteq> [] then Return (True, Some (CSTNode (Tok (token parser_node)) acc), tokens'')
           else Return (False, None, tokens'')))" for cs tokens' j
    by (rule call_sor) (rule one_or_more_loop_sor, rule assms, simp)
  have "same_or_raises name
      (case ms1 (lexeme (token parser_node)) (children parser_node) tokens (i + 1) of
         None \<Rightarrow> None | Some (Inl e) \<Rightarrow> Raise e
       | Some (Inr v) \<Rightarrow> (case v of (ok, cs, tokens') \<Rightarrow>
           if \<not> ok then Raise (SyntaxError (MissingGroup tokens'))
           else (case one_or_more_loop k
                        (\<lambda>ts. ms1 (lexeme (token parser_node)) (children parser_node) ts (i + 1))
                        [] cs tokens' of
                   None \<Rightarrow> None | Some (Inl e) \<Rightarrow> Raise e
                 | Some (Inr v) \<Rightarrow> (case v of (acc, tokens'') \<Rightarrow>
                     if acc \<noteq> []
                     then Return (True, Some (CSTNode (Tok (token parser_node)) acc), tokens'')
                     else Return (False, None, tokens'')))))
      (case ms2 (lexeme (token parser_node)) (children parser_node) tokens (i + 1) of
         None \<Rightarrow> None | Some (Inl e) \<Rightarrow> Raise e
       | Some (Inr v) \<Rightarrow> (case v of (ok, cs, tokens') \<Rightarrow>
           if \<not> ok then Raise (SyntaxError (MissingGroup tokens'))
           else (case one_or_more_loop k
                        (\<lambda>ts. ms2 (lexeme (token parser_node)) (children parser_node) ts (i + 1))
                        [] cs tokens' of
                   None \<Rightarrow> None | Some (Inl e) \<Rightarrow> Raise e
                 | Some (Inr v) \<Rightarrow> (case v of (acc, tokens'') \<Rightarrow>
                     if acc \<noteq> []
                     then Return (True, Some (CSTNode (Tok (token parser_node)) acc), tokens'')
                     else Return (False, None, tokens'')))))"
    by (rule call_sor) (rule assms, auto simp: loop split: prod.splits)
  then show ?thesis by (simp add: match_one_or_more_body_def split: prod.splits)
qed

lemma match_nonterminal_body_sor:
  assumes "\<And>node ts j. same_or_raises name (malt1 node ts j) (malt2 node ts j)"
    and "\<And>node ts j. same_or_raises name (mrep1 node ts j) (mrep2 node ts j)"
    and "\<And>node ts j. same_or_raises name (mopt1 node ts j) (mopt2 node ts j)"
    and "\<And>node ts j. same_or_raises name (matl1 node ts j) (matl2 node ts j)"
    and "\<And>nm cs ts j. same_or_raises name (ms1 nm cs ts j) (ms2 nm cs ts j)"
    and "map_of (symbol_table p1) name = None"
    and "\<And>k. k \<noteq> name \<Longrightarrow> map_of (symbol_table p2) k = map_of (symbol_table p1) k"
  shows "same_or_raises name
           (match_nonterminal_body malt1 mrep1 mopt1 matl1 ms1 p1 parser_node tokens i)
           (match_nonterminal_body malt2 mrep2 mopt2 matl2 ms2 p2 parser_node tokens i)"
proof (cases "base_name (lexeme (token parser_node)) = name")
  case True
  with assms(6) show ?thesis by (simp add: match_nonterminal_body_def same_or_raises_def)
next
  case False
  note eq = assms(7)[OF False]
  show ?thesis
  proof (cases "map_of (symbol_table p1) (base_name (lexeme (token parser_node)))")
    case None
    with eq show ?thesis by (simp add: match_nonterminal_body_def)
  next
    case (Some sy)
    show ?thesis
      unfolding match_nonterminal_body_def eq Some option.case Let_def
      by (intro conjI impI call_sor assms(1-5) | simp split: prod.splits)+
  qed
qed

lemma match_body_sor:
  assumes "\<And>node ts j. same_or_raises name (mt1 node ts j) (mt2 node ts j)"
    and "\<And>node ts j. same_or_raises name (mnt1 node ts j) (mnt2 node ts j)"
  shows "same_or_raises name (match_body mt1 mnt1 parser_node tokens i)
                            (match_body mt2 mnt2 parser_node tokens i)"
  using assms by (simp add: match_body_def)

lemma match_sor:
  assumes "rules_get p1 name = None"
    and "\<And>k. k \<noteq> name \<Longrightarrow> rules_get p2 k = rules_get p1 k"
    and "map_of (symbol_table p1) name = None"
    and "\<And>k. k \<noteq> name \<Longrightarrow> map_of (symbol_table p2) k = map_of (symbol_table p1) k"
    and "collapse_tree p1 = collapse_tree p2"
  shows "same_or_raises name (match n p1 parser_node tokens i) (match n p2 parser_node tokens i)"
proof (induction n arbitrary: parser_node tokens i)
  case 0
  show ?case by simp
next
  case (Suc n)
  have ms: "same_or_raises name (match_sequence n p1 nm cs ts j) (match_sequence n p2 nm cs ts j)"
    for nm cs ts j
    unfolding match_sequence_def by (rule match_sequence_body_sor) (rule Suc.IH)
  have mr: "same_or_raises name (match_rule n p1 r ts j) (match_rule n p2 r ts j)" for r ts j
    unfolding match_rule_def
    by (rule match_rule_body_sor) (rule Suc.IH, rule assms(1), rule assms(2))
  have mt: "same_or_raises name (match_terminal n p1 node ts j) (match_terminal n p2 node ts j)"
    for node ts j
    unfolding match_terminal_def by (rule match_terminal_body_sor) (rule mr, rule assms(5))
  have mnt: "same_or_raises name (match_nonterminal n p1 node ts j)
                                (match_nonterminal n p2 node ts j)"
    for node ts j
    unfolding match_nonterminal_def match_alternate_def match_repeating_def
      match_optional_def match_one_or_more_def
    by (rule match_nonterminal_body_sor)
       (rule match_alternate_body_sor match_repeating_body_sor match_optional_body_sor
             match_one_or_more_body_sor ms assms(3) assms(4); (rule ms)?; assumption?)+
  show ?case
    unfolding match_Suc by (rule match_body_sor) (rule mt mnt)+
qed

lemma parse_sor:
  assumes "rules_get p1 name = None"
    and "\<And>k. k \<noteq> name \<Longrightarrow> rules_get p2 k = rules_get p1 k"
    and "map_of (symbol_table p1) name = None"
    and "\<And>k. k \<noteq> name \<Longrightarrow> map_of (symbol_table p2) k = map_of (symbol_table p1) k"
    and "collapse_tree p1 = collapse_tree p2"
    and "start_rule p1 = start_rule p2"
  shows "same_or_raises name (parse n p1 tokens) (parse n p2 tokens)"
proof -
  have m: "same_or_raises name (match n p1 node ts j) (match n p2 node ts j)" for node ts j
    using assms(1-5) by (rule match_sor)
  have "same_or_raises name (match_rule n p1 r tokens 0) (match_rule n p2 r tokens 0)" for r
    unfolding match_rule_def
    by (rule match_rule_body_sor) (rule m, rule assms(1), rule assms(2))
  with assms(6) show ?thesis by (simp add: parse_def split: option.splits)
qed

subsection \<open>The claim\<close>

text \<open>
  Claim C10 (an undefined rule reference passes compilation and fails at parse time).
  Let \<open>self\<close> be the parser compiled from any grammar text, and \<open>name\<close> a name with no
  entry in its symbol table, so that no line of the grammar defines it.
  \<^item> Compilation does not validate references: with any lexer that yields the same
    symbols for every rule body, whatever the names in its \<^verbatim>\<open>RULE\<close> tokens, the same
    text compiles as well, to a parser with the same rule names, symbol table and start
    rule.
  \<^item> \<open>self\<close> has no rule for \<open>name\<close>, and \<^verbatim>\<open>match_rule\<close> raises "No rule for" the name for
    every fuel and token list.
  \<^item> When the matcher reaches a \<^verbatim>\<open>RULE\<close> leaf for \<open>name\<close> with tokens left, \<^verbatim>\<open>match\<close> raises
    that error, and so does the loop of \<^verbatim>\<open>match_sequence\<close> in any state whose next child
    is the leaf, whatever children matched before and whatever follows.
  \<^item> That is the only effect of the missing rule: compared with any parser \<open>self'\<close> that
    differs from \<open>self\<close> only in what it has for \<open>name\<close>, a parse of any input ends the
    same way, or raises "No rule for" the name, or raises the \<^verbatim>\<open>KeyError\<close> of a node whose
    name starts with \<open>name\<close> and a dash.
\<close>

theorem undefined_reference_fails_at_parse_time:
  assumes "EBNFParser_init lexer text0 gc = Inr (self, gc')"
    and "map_of (symbol_table self) name = None"
    and "symbol (token leaf) = RULE" and "lexeme (token leaf) = name"
    and "tokens \<noteq> []"
    and "\<forall>val. rel_sum (=) (list_all2 same_symbol) (lexer val) (lexer' val)"
    and "collapse_tree self' = collapse_tree self" and "start_rule self' = start_rule self"
    and "\<forall>k. k \<noteq> name \<longrightarrow>
           rules_get self' k = rules_get self k
           \<and> map_of (symbol_table self') k = map_of (symbol_table self) k"
  shows "(\<exists>compiled. EBNFParser_init lexer' text0 gc = Inr (compiled, gc')
            \<and> same_names self compiled)
       \<and> rules_get self name = None
       \<and> match_rule n self name tokens i = Raise (SyntaxError (NoRuleFor name))
       \<and> match (Suc n) self leaf tokens i = Raise (SyntaxError (NoRuleFor name))
       \<and> sequence_loop (\<lambda>this ts. match (Suc n) self this ts j) orig ok found
            (leaf # expected) tokens
          = Raise (SyntaxError (NoRuleFor name))
       \<and> same_or_raises name (parse n self input) (parse n self' input)"
proof (intro conjI)
  from assms(6) have "rel_sum (=) (rel_prod same_names (=))
      (EBNFParser_init lexer text0 gc) (EBNFParser_init lexer' text0 gc)"
    by (intro EBNFParser_init_alike) simp
  then show "\<exists>compiled. EBNFParser_init lexer' text0 gc = Inr (compiled, gc')
            \<and> same_names self compiled"
    unfolding assms(1) by (cases "EBNFParser_init lexer' text0 gc") auto
next
  show none: "rules_get self name = None"
    using assms(1,2) by (rule EBNFParser_init_names)
  show "match_rule n self name tokens i = Raise (SyntaxError (NoRuleFor name))"
    using none by (rule undefined_rule_raises)
  show leaf: "match (Suc n) self leaf tokens i = Raise (SyntaxError (NoRuleFor name))" for i
    using none assms(3,4,5) by (rule undefined_leaf_raises)
  show "sequence_loop (\<lambda>this ts. match (Suc n) self this ts j) orig ok found
            (leaf # expected) tokens
          = Raise (SyntaxError (NoRuleFor name))"
    using assms(5) by (simp add: leaf)
  show "same_or_raises name (parse n self input) (parse n self' input)"
    using none _ assms(2) _ assms(7)[symmetric] assms(8)[symmetric]
    by (rule parse_sor) (use assms(9) in auto)
qed

text \<open>
  The grammar \<^verbatim>\<open>r := A {x}; x := B nope;\<close> as \<^verbatim>\<open>EBNFParser\<close> compiles it, the same parser
  with the rule \<^verbatim>\<open>nope := C;\<close> added, the meta-tokens of the two rule bodies, and the
  meta-tokens of the same bodies with the reference to \<^verbatim>\<open>nope\<close> replaced by one to \<^verbatim>\<open>x\<close>.
\<close>

definition grammar_nope :: parser where
  "grammar_nope =
     \<lparr>rules =
        [(''r'', Some (rule_node SEQUENCE ''r''
                  [new_node (meta_token TERM_sym ''A''),
                   rule_node REPEATING ''r-1'' [new_node (meta_token RULE ''x'')]])),
         (''x'', Some (rule_node SEQUENCE ''x''
                  [new_node (meta_token TERM_sym ''B''), new_node (meta_token RULE ''nope'')]))],
      symbol_table = [(''r'', EBNFNonTerminalSymbol ''r''), (''x'', EBNFNonTerminalSymbol ''x'')],
      start_rule = Some ''r'', collapse_tree = True,
      lexers = lexers new_parser, tokenizer_symbols = [''LITERAL'']\<rparr>"

definition grammar_nope_defined :: parser where
  "grammar_nope_defined =
     grammar_nope
       \<lparr>rules := rules grammar_nope
          @ [(''nope'', Some (rule_node SEQUENCE ''nope'' [new_node (meta_token TERM_sym ''C'')]))],
        symbol_table := symbol_table grammar_nope @ [(''nope'', EBNFNonTerminalSymbol ''nope'')]\<rparr>"

definition lexer_nope :: "string \<Rightarrow> error + token list" where
  "lexer_nope =
     table_lexer [('' A {x}'', [meta_token TERM_sym ''A'', meta_token STARTREPEAT ''{'',
                                meta_token RULE ''x'', meta_token ENDREPEAT ''}'']),
                  ('' B nope'', [meta_token TERM_sym ''B'', meta_token RULE ''nope''])]"

definition lexer_x :: "string \<Rightarrow> error + token list" where
  "lexer_x =
     table_lexer [('' A {x}'', [meta_token TERM_sym ''A'', meta_token STARTREPEAT ''{'',
                                meta_token RULE ''x'', meta_token ENDREPEAT ''}'']),
                  ('' B nope'', [meta_token TERM_sym ''B'', meta_token RULE ''x''])]"

lemma grammar_nope_compiled:
  "EBNFParser_init lexer_nope ''r := A {x}; x := B nope;'' (\<lambda>k. 0)
     = Inr (grammar_nope, (\<lambda>k. 0)(''r'' := 1))"
  by (simp add: lexer_nope_def compiler_defs builder_defs symbol_defs meta_token_def rule_node_def
        grammar_nope_def Let_def)

lemma lexers_same_symbols:
  "rel_sum (=) (list_all2 same_symbol) (lexer_nope val) (lexer_x val)"
  by (simp add: lexer_nope_def lexer_x_def table_lexer_def same_symbol_def meta_token_def)

lemma grammar_nope_defined_agrees:
  "k \<noteq> ''nope'' \<Longrightarrow>
     rules_get grammar_nope_defined k = rules_get grammar_nope k
     \<and> map_of (symbol_table grammar_nope_defined) k = map_of (symbol_table grammar_nope) k"
  by (simp add: grammar_nope_defined_def grammar_nope_def rules_get_def)

theorem undefined_reference_fails_at_parse_time_witness:
  "EBNFParser_init lexer_nope ''r := A {x}; x := B nope;'' (\<lambda>k. 0)
     = Inr (grammar_nope, (\<lambda>k. 0)(''r'' := 1))
   \<and> map_of (symbol_table grammar_nope) ''nope'' = None
   \<and> (\<exists>compiled. EBNFParser_init lexer_x ''r := A {x}; x := B nope;'' (\<lambda>k. 0)
          = Inr (compiled, (\<lambda>k. 0)(''r'' := 1)) \<and> same_names grammar_nope compiled)
   \<and> rules_get grammar_nope ''nope'' = None
   \<and> match (Suc 0) grammar_nope (new_node (meta_token RULE ''nope''))
        [source_token ''C'' ''c''] 6
      = Raise (SyntaxError (NoRuleFor ''nope''))
   \<and> parse 5 grammar_nope
        [source_token ''A'' ''a'', source_token ''B'' ''b'', source_token ''C'' ''c'']
      = Raise (SyntaxError (NoRuleFor ''nope''))
   \<and> same_or_raises ''nope''
        (parse 7 grammar_nope
           [source_token ''A'' ''a'', source_token ''B'' ''b'', source_token ''C'' ''c''])
        (parse 7 grammar_nope_defined
           [source_token ''A'' ''a'', source_token ''B'' ''b'', source_token ''C'' ''c''])
   \<and> parse 7 grammar_nope [source_token ''A'' ''a''] = parse 7 grammar_nope_defined [source_token ''A'' ''a'']"
proof -
  have h2: "map_of (symbol_table grammar_nope) ''nope'' = None"
    by (simp add: grammar_nope_def)
  have h3: "symbol (token (new_node (meta_token RULE ''nope''))) = RULE"
    and h4: "lexeme (token (new_node (meta_token RULE ''nope''))) = ''nope''"
    by (simp_all add: new_node_def meta_token_def)
  have h5: "[source_token ''C'' ''c''] \<noteq> []" by simp
  have h6: "\<forall>val. rel_sum (=) (list_all2 same_symbol) (lexer_nope val) (lexer_x val)"
    by (simp add: lexers_same_symbols)
  have h7: "collapse_tree grammar_nope_defined = collapse_tree grammar_nope"
    and h8: "start_rule grammar_nope_defined = start_rule grammar_nope"
    by (simp_all add: grammar_nope_defined_def)
  have h9: "\<forall>k. k \<noteq> ''nope'' \<longrightarrow>
           rules_get grammar_nope_defined k = rules_get grammar_nope k
           \<and> map_of (symbol_table grammar_nope_defined) k = map_of (symbol_table grammar_nope) k"
    by (simp add: grammar_nope_defined_agrees)
  have p: "parse 5 grammar_nope
        [source_token ''A'' ''a'', source_token ''B'' ''b'', source_token ''C'' ''c'']
      = Raise (SyntaxError (NoRuleFor ''nope''))"
    by (simp add: numeral_eq_Suc matcher_defs match_Suc symbol_defs meta_token_def
          source_token_def rule_node_def new_node_def grammar_nope_def base_name_def Let_def)
  have q: "parse 7 grammar_nope [source_token ''A'' ''a''] = parse 7 grammar_nope_defined [source_token ''A'' ''a'']"
    by (simp add: numeral_eq_Suc matcher_defs match_Suc symbol_defs meta_token_def
          source_token_def rule_node_def new_node_def grammar_nope_def grammar_nope_defined_def
          base_name_def Let_def)
  from undefined_reference_fails_at_parse_time
         [OF grammar_nope_compiled h2 h3 h4 h5 h6 h7 h8 h9,
          where n = 0 and i = 6 and input = "[source_token ''A'' ''a'']"]
       undefined_reference_fails_at_parse_time
         [OF grammar_nope_compiled h2 h3 h4 h5 h6 h7 h8 h9,
          where n = 7 and input =
            "[source_token ''A'' ''a'', source_token ''B'' ''b'', source_token ''C'' ''c'']"]
       grammar_nope_compiled h2 p q
  show ?thesis by simp
qed

section \<open>Alternation\<close>

text \<open>The grammar \<^verbatim>\<open>r := x | B; x := A;\<close> as \<^verbatim>\<open>EBNFParser\<close> compiles it.\<close>

definition grammar_alt :: parser where
  "grammar_alt =
     \<lparr>rules =
        [(''r'', Some (rule_node ALTERNATING ''r''
                  [new_node (meta_token RULE ''x''), new_node (meta_token OR ''|''),
                   new_node (meta_token TERM_sym ''B'')])),
         (''x'', Some (rule_node SEQUENCE ''x'' [new_node (meta_token TERM_sym ''A'')]))],
      symbol_table = [(''r'', EBNFNonTerminalSymbol ''r''), (''x'', EBNFNonTerminalSymbol ''x'')],
      start_rule = Some ''r'', collapse_tree = True,
      lexers = lexers new_parser, tokenizer_symbols = [''LITERAL'']\<rparr>"

lemma grammar_alt_compiled:
  "EBNFParser_init
     (table_lexer [('' x | B'', [meta_token RULE ''x'', meta_token OR ''|'', meta_token TERM_sym ''B'']),
                   ('' A'', [meta_token TERM_sym ''A''])])
     ''r := x | B; x := A;'' (\<lambda>k. 0)
     = Inr (grammar_alt, \<lambda>k. 0)"
  by (simp add: compiler_defs builder_defs symbol_defs meta_token_def rule_node_def
        grammar_alt_def Let_def)

text \<open>
  Claim C6 (alternation: snapshot, alternatives in order, the first alternative whose
  whole sequence matches is committed, restore on all-fail, a failed alternative never
  keeps a later one from being attempted). \<^verbatim>\<open>match_alternate\<close> commits the first
  alternative for which \<^verbatim>\<open>match_sequence\<close> returns ok, and ok does not mean that the
  sequence matched. For \<^verbatim>\<open>r := x | B; x := A;\<close> on the token \<^verbatim>\<open>b\<close> of \<^verbatim>\<open>B\<close>: the rule
  \<^verbatim>\<open>x\<close> does not match, but the leaf of \<^verbatim>\<open>x\<close> returns ok with an empty node, so the first
  alternative is ok with no children and no token consumed. It is committed; the second
  alternative, which matches the whole input, is never attempted, and the parse ends
  with "not all input consumed".
\<close>

theorem match_alternate_commits_alternative_that_did_not_match:
  "match_rule (Suc (Suc n)) grammar_alt ''x'' [source_token ''B'' ''b''] 5
     = Return (False, None, [source_token ''B'' ''b''])
   \<and> match_sequence (Suc (Suc (Suc n))) grammar_alt ''r'' [new_node (meta_token RULE ''x'')]
       [source_token ''B'' ''b''] 3
     = Return (True, [], [source_token ''B'' ''b''])
   \<and> match_sequence (Suc (Suc (Suc n))) grammar_alt ''r'' [new_node (meta_token TERM_sym ''B'')]
       [source_token ''B'' ''b''] 3
     = Return (True, [CSTNode (Tok (source_token ''B'' ''b'')) []], [])
   \<and> split_by_or (children (the (rules_get grammar_alt ''r'')))
     = [[new_node (meta_token RULE ''x'')], [new_node (meta_token TERM_sym ''B'')]]
   \<and> match_alternate (Suc (Suc (Suc n))) grammar_alt (the (rules_get grammar_alt ''r''))
       [source_token ''B'' ''b''] 2
     = Return (True, Some (CSTNode (Tok (token (the (rules_get grammar_alt ''r'')))) []),
               [source_token ''B'' ''b''])
   \<and> parse (Suc (Suc (Suc (Suc n)))) grammar_alt [source_token ''B'' ''b'']
     = Raise (ValueError (NotAllConsumed [source_token ''B'' ''b'']))"
  by (simp add: matcher_defs match_Suc symbol_defs meta_token_def source_token_def
        rule_node_def new_node_def grammar_alt_def base_name_def Let_def)

text \<open>
  The grammar \<^verbatim>\<open>r := <A> | B;\<close> on the same token: the first alternative raises
  \<^verbatim>\<open>SyntaxError\<close> "Missing group", which \<^verbatim>\<open>match_alternate\<close> does not catch, so the second
  alternative is not attempted either.
\<close>

definition grammar_atl_alt :: parser where
  "grammar_atl_alt =
     \<lparr>rules =
        [(''r'', Some (rule_node ALTERNATING ''r''
                  [rule_node ATLEASTONCE ''r-1'' [new_node (meta_token TERM_sym ''A'')],
                   new_node (meta_token OR ''|''),
                   new_node (meta_token TERM_sym ''B'')]))],
      symbol_table = [(''r'', EBNFNonTerminalSymbol ''r'')],
      start_rule = Some ''r'', collapse_tree = True,
      lexers = lexers new_parser, tokenizer_symbols = [''LITERAL'']\<rparr>"

lemma grammar_atl_alt_compiled:
  "EBNFParser_init
     (table_lexer [('' <A> | B'', [meta_token STARTATL ''<'', meta_token TERM_sym ''A'',
                                   meta_token ENDATL ''>'', meta_token OR ''|'',
                                   meta_token TERM_sym ''B''])])
     ''r := <A> | B;'' (\<lambda>k. 0)
     = Inr (grammar_atl_alt, (\<lambda>k. 0)(''r'' := 1))"
  by (simp add: compiler_defs builder_defs symbol_defs meta_token_def rule_node_def
        grammar_atl_alt_def Let_def)

lemma required_group_stops_alternation:
  "match_sequence (Suc (Suc (Suc n))) grammar_atl_alt ''r'' [new_node (meta_token TERM_sym ''B'')]
       [source_token ''B'' ''b''] 3
     = Return (True, [CSTNode (Tok (source_token ''B'' ''b'')) []], [])
   \<and> match_alternate (Suc (Suc (Suc n))) grammar_atl_alt (the (rules_get grammar_atl_alt ''r''))
       [source_token ''B'' ''b''] 2
     = Raise (SyntaxError (MissingGroup [source_token ''B'' ''b'']))
   \<and> parse (Suc (Suc (Suc (Suc n)))) grammar_atl_alt [source_token ''B'' ''b'']
     = Raise (SyntaxError (MissingGroup [source_token ''B'' ''b'']))"
  by (simp add: matcher_defs match_Suc symbol_defs meta_token_def source_token_def
        rule_node_def new_node_def grammar_atl_alt_def base_name_def Let_def)

section \<open>A suffix after a bracket closer\<close>

text \<open>The four branches of the loop of \<^verbatim>\<open>make_parser_node\<close>, one equation each.\<close>

lemma loop_opener:
  assumes op: "symbol first \<in> set [STARTGROUP, STARTREPEAT, STARTOPTION, STARTATL]"
  shows "parser_node_loop nm endtoken this (first # rest) gc =
     (case groupings (symbol first) of
        None \<Rightarrow> Inl KeyError
      | Some closer \<Rightarrow>
         (case make_parser_node
                 (base_name nm @ ''-'' @ string_of_nat (gc (base_name nm) + 1))
                 rest (Some closer) (gc(base_name nm := gc (base_name nm) + 1)) of
            Inl e \<Rightarrow> Inl e
          | Inr (None, tokens', gc2) \<Rightarrow> parser_node_loop nm endtoken this tokens' gc2
          | Inr (Some child, tokens', gc2) \<Rightarrow>
             (case SEQ_MAP (symbol first) of
                None \<Rightarrow> Inl KeyError
              | Some s \<Rightarrow>
                 parser_node_loop nm endtoken (add this (set_symbol child s)) tokens' gc2)))"
  by (subst parser_node_loop.simps(2)) (simp only: op if_True Let_def fun_upd_same)

lemma loop_closer:
  assumes nop: "symbol first \<notin> set [STARTGROUP, STARTREPEAT, STARTOPTION, STARTATL]"
    and cl: "symbol first \<in> set [ENDGROUP, ENDREPEAT, ENDOPTION, ENDATL]"
  shows "parser_node_loop nm endtoken this (first # rest) gc
           = close_group nm endtoken this first rest gc"
  using nop by (subst parser_node_loop.simps(2)) (simp only: cl if_True if_False)

lemma loop_or:
  assumes nop: "symbol first \<notin> set [STARTGROUP, STARTREPEAT, STARTOPTION, STARTATL]"
    and ncl: "symbol first \<notin> set [ENDGROUP, ENDREPEAT, ENDOPTION, ENDATL]"
    and or: "symbol first = OR"
  shows "parser_node_loop nm endtoken this (first # rest) gc =
     parser_node_loop nm endtoken (add (set_symbol this ALTERNATING) (new_node first)) rest gc"
  using nop ncl by (subst parser_node_loop.simps(2)) (simp only: or if_True if_False refl)

lemma loop_leaf:
  assumes nop: "symbol first \<notin> set [STARTGROUP, STARTREPEAT, STARTOPTION, STARTATL]"
    and ncl: "symbol first \<notin> set [ENDGROUP, ENDREPEAT, ENDOPTION, ENDATL]"
    and nor: "symbol first \<noteq> OR"
  shows "parser_node_loop nm endtoken this (first # rest) gc =
     parser_node_loop nm endtoken (add this (new_node first)) rest gc"
  using nop ncl nor by (subst parser_node_loop.simps(2)) (simp only: if_True if_False)

lemma close_group_frame:
  "close_group nm endtoken this first rest gc = Inr (this', rem, gc') \<Longrightarrow> rem \<noteq> [] \<Longrightarrow>
     (\<exists>pre. rest = pre @ rem) \<and>
     (\<forall>ext. close_group nm endtoken this first (rest @ ext) gc = Inr (this', rem @ ext, gc'))"
  by (auto simp: close_group_def Let_def split: option.splits if_splits list.splits)

lemma builder_frame:
  "make_parser_node nm tokens endtoken gc = Inr (node, rem, gc') \<Longrightarrow> rem \<noteq> [] \<Longrightarrow>
     (\<exists>pre. tokens = pre @ rem) \<and>
     (\<forall>ext. make_parser_node nm (tokens @ ext) endtoken gc = Inr (node, rem @ ext, gc'))"
  "parser_node_loop nm endtoken this tokens gc = Inr (this', rem, gc') \<Longrightarrow> rem \<noteq> [] \<Longrightarrow>
     (\<exists>pre. tokens = pre @ rem) \<and>
     (\<forall>ext. parser_node_loop nm endtoken this (tokens @ ext) gc = Inr (this', rem @ ext, gc'))"
proof (induct nm tokens endtoken gc and nm endtoken this tokens gc
       arbitrary: node rem gc' and this' rem gc'
       rule: make_parser_node_parser_node_loop.induct)
  case (1 nm tokens endtoken groupcount)
  from "1.prems" have ne: "tokens \<noteq> []"
    by (auto simp: make_parser_node.simps)
  from "1.prems"(1) ne obtain this where
    l: "parser_node_loop nm endtoken
          (new_node \<lparr>cls = EBNFToken, symbol = SEQUENCE, lexeme = nm, start = 0, finish = 0\<rparr>)
          tokens groupcount = Inr (this, rem, gc')"
    and node: "node = Some this"
    by (auto simp: make_parser_node.simps split: sum.splits)
  from "1.hyps"[OF ne l "1.prems"(2)] ne node show ?case
    by (auto simp: make_parser_node.simps)
next
  case (2 nm endtoken this groupcount)
  then show ?case by simp
next
  case (3 nm endtoken this first rest groupcount)
  show ?case
  proof (cases "symbol first \<in> set [STARTGROUP, STARTREPEAT, STARTOPTION, STARTATL]")
    case True
    define key where "key = base_name nm"
    define gc1 where "gc1 = groupcount(key := groupcount key + 1)"
    note unfold = loop_opener[OF True]
    from "3.prems"(1) obtain closer where closer: "groupings (symbol first) = Some closer"
      by (auto simp: unfold split: option.splits)
    from "3.prems"(1) closer obtain child tokens' gc2 where inner:
      "make_parser_node (key @ ''-'' @ string_of_nat (gc1 key)) rest (Some closer) gc1
         = Inr (child, tokens', gc2)"
      by (auto simp: unfold key_def gc1_def split: sum.splits)
    have ne: "tokens' \<noteq> []"
    proof
      assume "tokens' = []"
      with "3.prems" closer inner show False
        by (auto simp: unfold key_def gc1_def split: option.splits)
    qed
    from "3.hyps"(1)[OF True key_def gc1_def closer inner ne]
    obtain pre1 where pre1: "rest = pre1 @ tokens'"
      and ext1: "\<And>ext. make_parser_node (key @ ''-'' @ string_of_nat (gc1 key)) (rest @ ext)
                    (Some closer) gc1 = Inr (child, tokens' @ ext, gc2)"
      by auto
    show ?thesis
    proof (cases child)
      case None
      from "3.prems"(1) closer inner None
      have l: "parser_node_loop nm endtoken this tokens' gc2 = Inr (this', rem, gc')"
        by (simp add: unfold key_def gc1_def)
      from "3.hyps"(2)[OF True key_def gc1_def closer inner _ None _ l "3.prems"(2),
                       of "(tokens', gc2)"]
      obtain pre2 where pre2: "tokens' = pre2 @ rem"
        and ext2: "\<And>ext. parser_node_loop nm endtoken this (tokens' @ ext) gc2
                      = Inr (this', rem @ ext, gc')"
        by auto
      have "first # rest = (first # pre1 @ pre2) @ rem" using pre1 pre2 by simp
      moreover have "parser_node_loop nm endtoken this ((first # rest) @ ext) groupcount
                       = Inr (this', rem @ ext, gc')" for ext
        using ext1[of ext] ext2[of ext] closer None
        by (simp add: unfold key_def gc1_def)
      ultimately show ?thesis by blast
    next
      case (Some c)
      from "3.prems"(1) closer inner Some obtain s where s: "SEQ_MAP (symbol first) = Some s"
        by (auto simp: unfold key_def gc1_def split: option.splits)
      from "3.prems"(1) closer inner Some s
      have l: "parser_node_loop nm endtoken (add this (set_symbol c s)) tokens' gc2
                 = Inr (this', rem, gc')"
        by (simp add: unfold key_def gc1_def)
      from "3.hyps"(3)[OF True key_def gc1_def closer inner _ Some _ s l "3.prems"(2),
                       of "(tokens', gc2)"]
      obtain pre2 where pre2: "tokens' = pre2 @ rem"
        and ext2: "\<And>ext. parser_node_loop nm endtoken (add this (set_symbol c s))
                        (tokens' @ ext) gc2 = Inr (this', rem @ ext, gc')"
        by auto
      have "first # rest = (first # pre1 @ pre2) @ rem" using pre1 pre2 by simp
      moreover have "parser_node_loop nm endtoken this ((first # rest) @ ext) groupcount
                       = Inr (this', rem @ ext, gc')" for ext
        using ext1[of ext] ext2[of ext] closer Some s
        by (simp add: unfold key_def gc1_def)
      ultimately show ?thesis by blast
    qed
  next
    case False
    show ?thesis
    proof (cases "symbol first \<in> set [ENDGROUP, ENDREPEAT, ENDOPTION, ENDATL]")
      case True
      from "3.prems"(1)
      have "close_group nm endtoken this first rest groupcount = Inr (this', rem, gc')"
        by (simp only: loop_closer[OF False True])
      from close_group_frame[OF this "3.prems"(2)]
      obtain pre where "rest = pre @ rem"
        and "\<And>ext. close_group nm endtoken this first (rest @ ext) groupcount
               = Inr (this', rem @ ext, gc')"
        by auto
      then have "first # rest = (first # pre) @ rem"
        and "\<And>ext. parser_node_loop nm endtoken this ((first # rest) @ ext) groupcount
               = Inr (this', rem @ ext, gc')"
        by (simp_all add: loop_closer[OF False True])
      then show ?thesis by blast
    next
      case notcloser: False
      show ?thesis
      proof (cases "symbol first = OR")
        case True
        from "3.prems"(1)
        have l: "parser_node_loop nm endtoken (add (set_symbol this ALTERNATING) (new_node first))
                   rest groupcount = Inr (this', rem, gc')"
          by (simp only: loop_or[OF False notcloser True])
        from "3.hyps"(4)[OF False notcloser True l "3.prems"(2)]
        obtain pre where "rest = pre @ rem"
          and "\<And>ext. parser_node_loop nm endtoken
                  (add (set_symbol this ALTERNATING) (new_node first)) (rest @ ext) groupcount
               = Inr (this', rem @ ext, gc')"
          by auto
        then have "first # rest = (first # pre) @ rem"
          and "\<And>ext. parser_node_loop nm endtoken this ((first # rest) @ ext) groupcount
               = Inr (this', rem @ ext, gc')"
          by (simp_all add: loop_or[OF False notcloser True])
        then show ?thesis by blast
      next
        case notor: False
        from "3.prems"(1)
        have l: "parser_node_loop nm endtoken (add this (new_node first))
                   rest groupcount = Inr (this', rem, gc')"
          by (simp only: loop_leaf[OF False notcloser notor])
        from "3.hyps"(5)[OF False notcloser notor l "3.prems"(2)]
        obtain pre where "rest = pre @ rem"
          and "\<And>ext. parser_node_loop nm endtoken
                  (add this (new_node first)) (rest @ ext) groupcount
               = Inr (this', rem @ ext, gc')"
          by auto
        then have "first # rest = (first # pre) @ rem"
          and "\<And>ext. parser_node_loop nm endtoken this ((first # rest) @ ext) groupcount
               = Inr (this', rem @ ext, gc')"
          by (simp_all add: loop_leaf[OF False notcloser notor])
        then show ?thesis by blast
      qed
    qed
  qed
qed

lemma bracket_closer_facts:
  assumes "symbol closer \<in> set [ENDREPEAT, ENDOPTION]"
  shows "symbol closer \<notin> set [STARTGROUP, STARTREPEAT, STARTOPTION, STARTATL]"
    and "symbol closer \<in> set [ENDGROUP, ENDREPEAT, ENDOPTION, ENDATL]"
    and "symbol closer \<notin> set [REP, OPT, ATL]"
  using assms by (auto simp: symbol_defs)

lemma ends_with_closer:
  assumes "xs @ [c] = pre @ ys" and "ys \<noteq> []"
  shows "\<exists>zs. ys = zs @ [c]"
proof -
  from assms(2) have "ys = butlast ys @ [last ys]" by simp
  moreover from assms have "last ys = c"
    by (metis last_appendR last_snoc)
  ultimately show ?thesis by metis
qed

lemma builder_illegal_mix:
  "make_parser_node nm tokens endtoken gc = Inr (node, [], gc') \<Longrightarrow> tokens = ts @ [closer] \<Longrightarrow>
   symbol closer \<in> set [ENDREPEAT, ENDOPTION] \<Longrightarrow> symbol suf \<in> set [REP, OPT, ATL] \<Longrightarrow>
     \<exists>nm'. make_parser_node nm (ts @ closer # suf # tail) endtoken gc
              = Inl (SyntaxError (IllegalMix nm'))"
  "parser_node_loop nm endtoken this tokens gc = Inr (this', [], gc') \<Longrightarrow> tokens = ts @ [closer] \<Longrightarrow>
   symbol closer \<in> set [ENDREPEAT, ENDOPTION] \<Longrightarrow> symbol suf \<in> set [REP, OPT, ATL] \<Longrightarrow>
     \<exists>nm'. parser_node_loop nm endtoken this (ts @ closer # suf # tail) gc
              = Inl (SyntaxError (IllegalMix nm'))"
proof (induct nm tokens endtoken gc and nm endtoken this tokens gc
       arbitrary: node gc' ts and this' gc' ts
       rule: make_parser_node_parser_node_loop.induct)
  case (1 nm tokens endtoken groupcount)
  from "1.prems"(2) have ne: "tokens \<noteq> []" by simp
  from "1.prems"(1) ne obtain this where
    l: "parser_node_loop nm endtoken
          (new_node \<lparr>cls = EBNFToken, symbol = SEQUENCE, lexeme = nm, start = 0, finish = 0\<rparr>)
          tokens groupcount = Inr (this, [], gc')"
    by (auto simp: make_parser_node.simps split: sum.splits)
  from "1.hyps"[OF ne l "1.prems"(2,3,4)] show ?case
    by (auto simp: make_parser_node.simps)
next
  case (2 nm endtoken this groupcount)
  then show ?case by simp
next
  case (3 nm endtoken this first rest groupcount)
  note bracket = bracket_closer_facts[OF "3.prems"(3)]
  show ?case
  proof (cases ts)
    case Nil
    with "3.prems"(2) have first: "first = closer" and rest: "rest = []" by simp_all
    from "3.prems"(1) have "close_group nm endtoken this closer [] groupcount = Inr (this', [], gc')"
      by (simp add: first rest loop_closer[OF bracket(1,2)])
    then have "endtoken = Some (symbol closer)"
      by (auto simp: close_group_def split: option.splits if_splits)
    with "3.prems"(3,4)
    have "close_group nm endtoken this closer (suf # tail) groupcount
            = Inl (SyntaxError (IllegalMix nm))"
      by (simp add: close_group_def)
    with Nil show ?thesis
      by (auto simp: loop_closer[OF bracket(1,2)])
  next
    case (Cons t ts')
    with "3.prems"(2) have first: "t = first" and rest: "rest = ts' @ [closer]" by simp_all
    show ?thesis
    proof (cases "symbol first \<in> set [STARTGROUP, STARTREPEAT, STARTOPTION, STARTATL]")
      case True
      define key where "key = base_name nm"
      define gc1 where "gc1 = groupcount(key := groupcount key + 1)"
      note unfold = loop_opener[OF True]
      from "3.prems"(1) obtain cl where cl: "groupings (symbol first) = Some cl"
        by (auto simp: unfold split: option.splits)
      from "3.prems"(1) cl obtain child tokens' gc2 where inner:
        "make_parser_node (key @ ''-'' @ string_of_nat (gc1 key)) rest (Some cl) gc1
           = Inr (child, tokens', gc2)"
        by (auto simp: unfold key_def gc1_def split: sum.splits)
      show ?thesis
      proof (cases "tokens' = []")
        case True
        with inner have inner': "make_parser_node (key @ ''-'' @ string_of_nat (gc1 key)) rest
            (Some cl) gc1 = Inr (child, [], gc2)" by simp
        from "3.hyps"(1)[OF \<open>symbol first \<in> set [STARTGROUP, STARTREPEAT, STARTOPTION, STARTATL]\<close>
                            key_def gc1_def cl inner' rest "3.prems"(3,4)]
        obtain nm' where "make_parser_node (key @ ''-'' @ string_of_nat (gc1 key))
            (ts' @ closer # suf # tail) (Some cl) gc1 = Inl (SyntaxError (IllegalMix nm'))"
          by auto
        with cl Cons first show ?thesis
          by (auto simp: unfold key_def gc1_def)
      next
        case False
        from builder_frame(1)[OF inner False]
        obtain pre1 where pre1: "rest = pre1 @ tokens'"
          and ext1: "\<And>ext. make_parser_node (key @ ''-'' @ string_of_nat (gc1 key)) (rest @ ext)
                        (Some cl) gc1 = Inr (child, tokens' @ ext, gc2)"
          by auto
        from ends_with_closer[OF pre1[unfolded rest] False]
        obtain ts'' where ts'': "tokens' = ts'' @ [closer]" by auto
        have inner2: "make_parser_node (key @ ''-'' @ string_of_nat (gc1 key))
            (ts' @ closer # suf # tail) (Some cl) gc1
              = Inr (child, ts'' @ closer # suf # tail, gc2)"
          using ext1[of "suf # tail"] by (simp add: rest ts'')
        show ?thesis
        proof (cases child)
          case None
          from "3.prems"(1) cl inner None
          have l: "parser_node_loop nm endtoken this tokens' gc2 = Inr (this', [], gc')"
            by (simp add: unfold key_def gc1_def)
          from "3.hyps"(2)[OF True key_def gc1_def cl inner _ None _ l ts'' "3.prems"(3,4),
                           of "(tokens', gc2)"]
          obtain nm' where "parser_node_loop nm endtoken this (ts'' @ closer # suf # tail) gc2
                              = Inl (SyntaxError (IllegalMix nm'))"
            by auto
          with cl Cons first inner2 None show ?thesis
            by (auto simp: unfold key_def gc1_def)
        next
          case (Some c)
          from "3.prems"(1) cl inner Some obtain s where s: "SEQ_MAP (symbol first) = Some s"
            by (auto simp: unfold key_def gc1_def split: option.splits)
          from "3.prems"(1) cl inner Some s
          have l: "parser_node_loop nm endtoken (add this (set_symbol c s)) tokens' gc2
                     = Inr (this', [], gc')"
            by (simp add: unfold key_def gc1_def)
          from "3.hyps"(3)[OF True key_def gc1_def cl inner _ Some _ s l ts'' "3.prems"(3,4),
                           of "(tokens', gc2)"]
          obtain nm' where "parser_node_loop nm endtoken (add this (set_symbol c s))
                              (ts'' @ closer # suf # tail) gc2
                              = Inl (SyntaxError (IllegalMix nm'))"
            by auto
          with cl Cons first inner2 Some s show ?thesis
            by (auto simp: unfold key_def gc1_def)
        qed
      qed
    next
      case False
      show ?thesis
      proof (cases "symbol first \<in> set [ENDGROUP, ENDREPEAT, ENDOPTION, ENDATL]")
        case True
        from "3.prems"(1)
        have "close_group nm endtoken this first (ts' @ [closer]) groupcount = Inr (this', [], gc')"
          by (simp add: rest loop_closer[OF False True])
        with bracket(3) have False
          by (cases ts') (auto simp: close_group_def Let_def split: option.splits if_splits)
        then show ?thesis ..
      next
        case notcloser: False
        show ?thesis
        proof (cases "symbol first = OR")
          case True
          from "3.prems"(1)
          have l: "parser_node_loop nm endtoken
                     (add (set_symbol this ALTERNATING) (new_node first)) rest groupcount
                     = Inr (this', [], gc')"
            by (simp only: loop_or[OF False notcloser True])
          from "3.hyps"(4)[OF False notcloser True l rest "3.prems"(3,4)] Cons first
          show ?thesis by (auto simp: loop_or[OF False notcloser True])
        next
          case notor: False
          from "3.prems"(1)
          have l: "parser_node_loop nm endtoken (add this (new_node first)) rest groupcount
                     = Inr (this', [], gc')"
            by (simp only: loop_leaf[OF False notcloser notor])
          from "3.hyps"(5)[OF False notcloser notor l rest "3.prems"(3,4)] Cons first
          show ?thesis by (auto simp: loop_leaf[OF False notcloser notor])
        qed
      qed
    qed
  qed
qed

text \<open>
  Claim C8 (a suffix right after \<^verbatim>\<open>}\<close> or \<^verbatim>\<open>]\<close> is rejected at compile time with
  "illegal mix of brackets and suffixes"). Take a rule whose meta-tokens, up to and
  including a closer \<^verbatim>\<open>}\<close> or \<^verbatim>\<open>]\<close>, are built without error and consumed entirely (so
  the closer closes its group, at any nesting depth). If a suffix token \<^verbatim>\<open>*\<close>, \<^verbatim>\<open>?\<close> or
  \<^verbatim>\<open>+\<close> follows that closer, whatever comes after, \<^verbatim>\<open>make_parser_node\<close> raises the
  illegal-mix \<^verbatim>\<open>SyntaxError\<close> (naming the group), and the loop of \<^verbatim>\<open>__init__\<close> fails with
  it at that rule: no parser is built.
\<close>

theorem suffix_after_bracket_closer_rejected:
  assumes "make_parser_node (strip key0) (ts @ [closer]) None gc = Inr (node, [], gc')"
    and "symbol closer \<in> set [ENDREPEAT, ENDOPTION]"
    and "symbol suf \<in> set [REP, OPT, ATL]"
    and "lexer val = Inr (ts @ closer # suf # tail)"
    and "islower (strip key0)"
    and "strip key0 \<notin> set (map fst (symbol_table self))"
  shows "\<exists>nm'. make_parser_node (strip key0) (ts @ closer # suf # tail) None gc
                  = Inl (SyntaxError (IllegalMix nm'))
               \<and> init_rules lexer ([key0, val] # data) self gc
                  = Inl (SyntaxError (IllegalMix nm'))"
proof -
  from builder_illegal_mix(1)[OF assms(1) refl assms(2,3), of tail]
  obtain nm' where "make_parser_node (strip key0) (ts @ closer # suf # tail) None gc
                      = Inl (SyntaxError (IllegalMix nm'))"
    by auto
  with assms(4,5,6) show ?thesis by (auto simp: Let_def)
qed

theorem suffix_after_bracket_closer_rejected_witness:
  "make_parser_node (strip ''r '')
       ([meta_token STARTREPEAT ''{'', meta_token TERM_sym ''A''] @ [meta_token ENDREPEAT ''}''])
       None (\<lambda>k. 0)
     = Inr (Some (rule_node SEQUENCE ''r''
                    [rule_node REPEATING ''r-1'' [new_node (meta_token TERM_sym ''A'')]]),
            [], (\<lambda>k. 0)(''r'' := 1))
   \<and> symbol (meta_token ENDREPEAT ''}'') \<in> set [ENDREPEAT, ENDOPTION]
   \<and> symbol (meta_token REP ''*'') \<in> set [REP, OPT, ATL]
   \<and> islower (strip ''r '')
   \<and> (\<exists>nm'. init_rules
          (table_lexer [('' {A}*'', [meta_token STARTREPEAT ''{'', meta_token TERM_sym ''A'',
                                     meta_token ENDREPEAT ''}'', meta_token REP ''*''])])
          ([''r '', '' {A}*''] # []) new_parser (\<lambda>k. 0)
          = Inl (SyntaxError (IllegalMix nm')))
   \<and> EBNFParser_init
        (table_lexer [('' {A}*'', [meta_token STARTREPEAT ''{'', meta_token TERM_sym ''A'',
                                   meta_token ENDREPEAT ''}'', meta_token REP ''*''])])
        ''r := {A}*;'' (\<lambda>k. 0)
     = Inl (SyntaxError (IllegalMix ''r-1''))"
proof -
  have k: "strip ''r '' = ''r''" by (simp add: strip_def isspace_def)
  have h1: "make_parser_node (strip ''r '')
       ([meta_token STARTREPEAT ''{'', meta_token TERM_sym ''A''] @ [meta_token ENDREPEAT ''}''])
       None (\<lambda>k. 0)
     = Inr (Some (rule_node SEQUENCE ''r''
                    [rule_node REPEATING ''r-1'' [new_node (meta_token TERM_sym ''A'')]]),
            [], (\<lambda>k. 0)(''r'' := 1))"
    by (simp add: k builder_defs symbol_defs meta_token_def rule_node_def Let_def)
  have h2: "symbol (meta_token ENDREPEAT ''}'') \<in> set [ENDREPEAT, ENDOPTION]"
    by (simp add: meta_token_def)
  have h3: "symbol (meta_token REP ''*'') \<in> set [REP, OPT, ATL]"
    by (simp add: meta_token_def)
  have h4: "table_lexer [('' {A}*'', [meta_token STARTREPEAT ''{'', meta_token TERM_sym ''A'',
                                     meta_token ENDREPEAT ''}'', meta_token REP ''*''])] '' {A}*''
      = Inr ([meta_token STARTREPEAT ''{'', meta_token TERM_sym ''A'']
               @ meta_token ENDREPEAT ''}'' # meta_token REP ''*'' # [])"
    by (simp add: table_lexer_def)
  have h5: "islower (strip ''r '')"
    by (simp add: k islower_def is_lower_char_def is_upper_char_def)
  have h6: "strip ''r '' \<notin> set (map fst (symbol_table new_parser))"
    by (simp add: new_parser_def)
  have c: "EBNFParser_init
        (table_lexer [('' {A}*'', [meta_token STARTREPEAT ''{'', meta_token TERM_sym ''A'',
                                   meta_token ENDREPEAT ''}'', meta_token REP ''*''])])
        ''r := {A}*;'' (\<lambda>k. 0)
     = Inl (SyntaxError (IllegalMix ''r-1''))"
    by (simp add: compiler_defs builder_defs symbol_defs meta_token_def Let_def)
  from suffix_after_bracket_closer_rejected
         [where ?key0.0 = "''r ''"
            and ts = "[meta_token STARTREPEAT ''{'', meta_token TERM_sym ''A'']"
            and closer = "meta_token ENDREPEAT ''}''" and suf = "meta_token REP ''*''"
            and tail = "[]" and val = "'' {A}*''" and self = new_parser and data = "[]"
            and lexer = "table_lexer [('' {A}*'', [meta_token STARTREPEAT ''{'',
                           meta_token TERM_sym ''A'', meta_token ENDREPEAT ''}'',
                           meta_token REP ''*''])]",
          OF h1 h2 h3 h4 h5 h6]
  have "\<exists>nm'. init_rules
          (table_lexer [('' {A}*'', [meta_token STARTREPEAT ''{'', meta_token TERM_sym ''A'',
                                     meta_token ENDREPEAT ''}'', meta_token REP ''*''])])
          ([''r '', '' {A}*''] # []) new_parser (\<lambda>k. 0)
          = Inl (SyntaxError (IllegalMix nm'))"
    by blast
  with h1 h2 h3 h5 c show ?thesis by blast
qed

section \<open>Tree collapsing\<close>

text \<open>
  The leaf tokens of a concrete syntax tree, from left to right: the tokens of the nodes
  without children.
\<close>

fun leaves :: "cst \<Rightarrow> cst_token list" where
  "leaves (CSTNode t cs) = (if cs = [] then [t] else concat (map leaves cs))"

text \<open>
  Two trees with the same leaf tokens; two nodes with the same token whose children
  agree pairwise on their leaf tokens; and the results of two runs of a match operation
  that agree on everything but the shape of the subtrees.
\<close>

definition same_leaves :: "cst \<Rightarrow> cst \<Rightarrow> bool" where
  "same_leaves a b = (leaves a = leaves b)"

definition similar :: "cst \<Rightarrow> cst \<Rightarrow> bool" where
  "similar a b = (cst_token_of a = cst_token_of b
                  \<and> list_all2 same_leaves (cst_children a) (cst_children b))"

abbreviation rel_matched :: "matched outcome \<Rightarrow> matched outcome \<Rightarrow> bool" where
  "rel_matched \<equiv> rel_option (rel_sum (=) (rel_prod (=) (rel_prod (rel_option similar) (=))))"

abbreviation rel_matched_seq :: "matched_seq outcome \<Rightarrow> matched_seq outcome \<Rightarrow> bool" where
  "rel_matched_seq \<equiv> rel_option (rel_sum (=) (rel_prod (=) (rel_prod (list_all2 same_leaves) (=))))"

abbreviation rel_loop :: "(cst list \<times> token list) outcome \<Rightarrow> (cst list \<times> token list) outcome \<Rightarrow> bool" where
  "rel_loop \<equiv> rel_option (rel_sum (=) (rel_prod (list_all2 same_leaves) (=)))"

lemma concat_leaves_cong:
  "list_all2 same_leaves xs ys \<Longrightarrow> concat (map leaves xs) = concat (map leaves ys)"
  by (induction rule: list_all2_induct) (auto simp: same_leaves_def)

lemma similar_same_leaves: "similar a b \<Longrightarrow> same_leaves a b"
  by (cases a; cases b) (auto simp: similar_def same_leaves_def dest: concat_leaves_cong)

lemma leaves_single_child: "length (cst_children c) = 1 \<Longrightarrow> leaves (hd (cst_children c)) = leaves c"
  by (cases c) (auto simp: length_Suc_conv)

lemma rel_outcome_cases:
  "rel_option (rel_sum (=) R) r1 r2 \<Longrightarrow>
     (r1 = None \<and> r2 = None) \<or> (\<exists>e. r1 = Raise e \<and> r2 = Raise e)
     \<or> (\<exists>v1 v2. r1 = Return v1 \<and> r2 = Return v2 \<and> R v1 v2)"
  by (cases r1; cases r2) (auto elim: rel_sum.cases)

lemma sequence_loop_rel:
  assumes "\<And>this ts. rel_matched (m1 this ts) (m2 this ts)"
  shows "list_all2 same_leaves f1 f2 \<Longrightarrow>
     rel_matched_seq (sequence_loop m1 orig ok f1 expected tokens)
                     (sequence_loop m2 orig ok f2 expected tokens)"
proof (induction expected arbitrary: ok f1 f2 tokens)
  case Nil
  then show ?case by (cases ok) auto
next
  case (Cons this expected)
  show ?case
  proof (cases "tokens = []")
    case True
    then show ?thesis by simp
  next
    case False
    from rel_outcome_cases[OF assms[of this tokens]] show ?thesis
    proof (elim disjE conjE exE)
      assume "m1 this tokens = None" "m2 this tokens = None"
      with False show ?thesis by simp
    next
      fix e assume "m1 this tokens = Raise e" "m2 this tokens = Raise e"
      with False show ?thesis by simp
    next
      fix v1 v2
      assume r: "m1 this tokens = Return v1" "m2 this tokens = Return v2"
        and rel: "rel_prod (=) (rel_prod (rel_option similar) (=)) v1 v2"
      obtain ok1 n1 t1 where v1: "v1 = (ok1, n1, t1)" by (cases v1)
      obtain ok2 n2 t2 where v2: "v2 = (ok2, n2, t2)" by (cases v2)
      from rel v1 v2 have eq: "ok1 = ok2" "t1 = t2" and n: "rel_option similar n1 n2" by auto
      show ?thesis
      proof (cases n1)
        case None
        with n have "n2 = None" by (cases n2) auto
        with None False r v1 v2 eq Cons.prems show ?thesis by simp
      next
        case (Some a)
        with n obtain b where b: "n2 = Some b" and ab: "similar a b" by (cases n2) auto
        from ab Cons.prems have "list_all2 same_leaves (f1 @ cst_children a) (f2 @ cst_children b)"
          by (auto simp: similar_def intro: list_all2_appendI)
        from Cons.IH[OF this] Some b False r v1 v2 eq show ?thesis by simp
      qed
    qed
  qed
qed

lemma alternate_loop_rel:
  assumes "\<And>alt ts. rel_matched_seq (ms1 alt ts) (ms2 alt ts)"
  shows "rel_matched (alternate_loop ms1 tok orig alts) (alternate_loop ms2 tok orig alts)"
proof (induction alts)
  case Nil
  show ?case by simp
next
  case (Cons alt alts)
  from rel_outcome_cases[OF assms[of alt orig]] show ?case
  proof (elim disjE conjE exE)
    assume "ms1 alt orig = None" "ms2 alt orig = None"
    then show ?thesis by simp
  next
    fix e assume "ms1 alt orig = Raise e" "ms2 alt orig = Raise e"
    with Cons.IH show ?thesis by (cases e) simp_all
  next
    fix v1 v2
    assume r: "ms1 alt orig = Return v1" "ms2 alt orig = Return v2"
      and rel: "rel_prod (=) (rel_prod (list_all2 same_leaves) (=)) v1 v2"
    obtain ok1 f1 t1 where v1: "v1 = (ok1, f1, t1)" by (cases v1)
    obtain ok2 f2 t2 where v2: "v2 = (ok2, f2, t2)" by (cases v2)
    from rel v1 v2 have "ok1 = ok2" "t1 = t2" "list_all2 same_leaves f1 f2" by auto
    with r v1 v2 Cons.IH show ?thesis by (simp add: similar_def)
  qed
qed

lemma repeating_loop_rel:
  assumes "\<And>ts. rel_matched_seq (ms1 ts) (ms2 ts)"
  shows "list_all2 same_leaves acc1 acc2 \<Longrightarrow>
     rel_loop (repeating_loop k ms1 acc1 tokens) (repeating_loop k ms2 acc2 tokens)"
proof (induction k arbitrary: acc1 acc2 tokens)
  case 0
  show ?case by simp
next
  case (Suc k)
  from rel_outcome_cases[OF assms[of tokens]] show ?case
  proof (elim disjE conjE exE)
    assume "ms1 tokens = None" "ms2 tokens = None"
    then show ?thesis by simp
  next
    fix e assume "ms1 tokens = Raise e" "ms2 tokens = Raise e"
    then show ?thesis by simp
  next
    fix v1 v2
    assume r: "ms1 tokens = Return v1" "ms2 tokens = Return v2"
      and rel: "rel_prod (=) (rel_prod (list_all2 same_leaves) (=)) v1 v2"
    obtain ok1 f1 t1 where v1: "v1 = (ok1, f1, t1)" by (cases v1)
    obtain ok2 f2 t2 where v2: "v2 = (ok2, f2, t2)" by (cases v2)
    from rel v1 v2 have eq: "ok1 = ok2" "t1 = t2" and f: "list_all2 same_leaves f1 f2" by auto
    from f Suc.prems have "list_all2 same_leaves (acc1 @ f1) (acc2 @ f2)"
      by (rule list_all2_appendI[rotated])
    from Suc.IH[OF this] r v1 v2 eq Suc.prems show ?thesis by simp
  qed
qed

lemma one_or_more_loop_rel:
  assumes "\<And>ts. rel_matched_seq (ms1 ts) (ms2 ts)"
  shows "list_all2 same_leaves acc1 acc2 \<Longrightarrow> list_all2 same_leaves cs1 cs2 \<Longrightarrow>
     rel_loop (one_or_more_loop k ms1 acc1 cs1 tokens) (one_or_more_loop k ms2 acc2 cs2 tokens)"
proof (induction k arbitrary: acc1 acc2 cs1 cs2 tokens)
  case 0
  show ?case by simp
next
  case (Suc k)
  from Suc.prems have acc: "list_all2 same_leaves (acc1 @ cs1) (acc2 @ cs2)"
    by (rule list_all2_appendI)
  from rel_outcome_cases[OF assms[of tokens]] show ?case
  proof (elim disjE conjE exE)
    assume "ms1 tokens = None" "ms2 tokens = None"
    then show ?thesis by simp
  next
    fix e assume "ms1 tokens = Raise e" "ms2 tokens = Raise e"
    then show ?thesis by simp
  next
    fix v1 v2
    assume r: "ms1 tokens = Return v1" "ms2 tokens = Return v2"
      and rel: "rel_prod (=) (rel_prod (list_all2 same_leaves) (=)) v1 v2"
    obtain ok1 f1 t1 where v1: "v1 = (ok1, f1, t1)" by (cases v1)
    obtain ok2 f2 t2 where v2: "v2 = (ok2, f2, t2)" by (cases v2)
    from rel v1 v2 have eq: "ok1 = ok2" "t1 = t2" and f: "list_all2 same_leaves f1 f2" by auto
    from Suc.IH[OF acc f] r v1 v2 eq acc show ?thesis by simp
  qed
qed

lemma match_sequence_body_rel:
  assumes "\<And>node ts j. rel_matched (m1 node ts j) (m2 node ts j)"
  shows "rel_matched_seq (match_sequence_body m1 nm originals tokens i)
                         (match_sequence_body m2 nm originals tokens i)"
  unfolding match_sequence_body_def
  by (rule sequence_loop_rel) (simp_all add: assms)

lemma match_rule_body_rel:
  assumes "\<And>node ts j. rel_matched (m1 node ts j) (m2 node ts j)"
    and "rules p1 = rules p2"
  shows "rel_matched (match_rule_body m1 p1 rule tokens i) (match_rule_body m2 p2 rule tokens i)"
proof (cases "rules_get p2 rule")
  case None
  with assms(2) show ?thesis by (simp add: match_rule_body_def rules_get_def)
next
  case (Some parser_node)
  from rel_outcome_cases[OF assms(1)[of parser_node tokens "i + 1"]] Some assms(2)
  show ?thesis
    by (auto simp: match_rule_body_def rules_get_def)
qed

lemma match_terminal_body_rel:
  assumes "\<And>r ts j. rel_matched (mr1 r ts j) (mr2 r ts j)"
  shows "rel_matched (match_terminal_body mr1 p1 parser_node tokens i)
                     (match_terminal_body mr2 p2 parser_node tokens i)"
proof (cases tokens)
  case Nil
  then show ?thesis by (simp add: match_terminal_body_def)
next
  case (Cons t ts)
  show ?thesis
  proof (cases "symbol (token parser_node) = RULE")
    case False
    with Cons show ?thesis by (simp add: match_terminal_body_def similar_def same_leaves_def)
  next
    case True
    from rel_outcome_cases[OF assms[of "lexeme (token parser_node)" tokens "i + 1"]]
    show ?thesis
    proof (elim disjE conjE exE)
      assume "mr1 (lexeme (token parser_node)) tokens (i + 1) = None"
             "mr2 (lexeme (token parser_node)) tokens (i + 1) = None"
      with True Cons show ?thesis by (simp add: match_terminal_body_def)
    next
      fix e assume "mr1 (lexeme (token parser_node)) tokens (i + 1) = Raise e"
                   "mr2 (lexeme (token parser_node)) tokens (i + 1) = Raise e"
      with True Cons show ?thesis by (simp add: match_terminal_body_def)
    next
      fix v1 v2
      assume r: "mr1 (lexeme (token parser_node)) tokens (i + 1) = Return v1"
                "mr2 (lexeme (token parser_node)) tokens (i + 1) = Return v2"
        and rel: "rel_prod (=) (rel_prod (rel_option similar) (=)) v1 v2"
      obtain ok1 n1 t1 where v1: "v1 = (ok1, n1, t1)" by (cases v1)
      obtain ok2 n2 t2 where v2: "v2 = (ok2, n2, t2)" by (cases v2)
      from rel v1 v2 have eq: "t1 = t2" and n: "rel_option similar n1 n2" by auto
      show ?thesis
      proof (cases n1)
        case None
        with n have "n2 = None" by (cases n2) auto
        with None True Cons r v1 v2 eq show ?thesis
          by (simp add: match_terminal_body_def similar_def)
      next
        case (Some a)
        with n obtain b where b: "n2 = Some b" and ab: "similar a b" by (cases n2) auto
        from ab have len: "length (cst_children a) = length (cst_children b)"
          by (auto simp: similar_def dest: list_all2_lengthD)
        from ab have l: "leaves a = leaves b"
          using similar_same_leaves by (simp add: same_leaves_def)
        with len Some b True Cons r v1 v2 eq show ?thesis
          by (auto simp: match_terminal_body_def similar_def same_leaves_def leaves_single_child)
      qed
    qed
  qed
qed

lemma finish_nonterminal_rel:
  "list_all2 same_leaves f1 f2 \<Longrightarrow> rel_option similar c1 c2 \<Longrightarrow>
     rel_matched (finish_nonterminal tok f1 c1 ts) (finish_nonterminal tok f2 c2 ts)"
  by (cases c1; cases c2)
     (auto simp: finish_nonterminal_def similar_def Let_def intro: list_all2_appendI
           dest: list_all2_lengthD)

lemma match_optional_body_rel:
  assumes "\<And>nm cs ts j. rel_matched_seq (ms1 nm cs ts j) (ms2 nm cs ts j)"
  shows "rel_matched (match_optional_body ms1 parser_node tokens i)
                     (match_optional_body ms2 parser_node tokens i)"
  using rel_outcome_cases[OF assms[of "lexeme (token parser_node)" "children parser_node"
                                       tokens "i + 1"]]
  by (auto simp: match_optional_body_def similar_def)

lemma match_alternate_body_rel:
  assumes "\<And>nm cs ts j. rel_matched_seq (ms1 nm cs ts j) (ms2 nm cs ts j)"
  shows "rel_matched (match_alternate_body ms1 parser_node tokens i)
                     (match_alternate_body ms2 parser_node tokens i)"
  unfolding match_alternate_body_def
  using alternate_loop_rel[of "\<lambda>alt ts. ms1 (lexeme (token parser_node)) alt ts (i + 1)"
                              "\<lambda>alt ts. ms2 (lexeme (token parser_node)) alt ts (i + 1)"]
  by (simp add: assms)

lemma match_repeating_body_rel:
  assumes "\<And>nm cs ts j. rel_matched_seq (ms1 nm cs ts j) (ms2 nm cs ts j)"
  shows "rel_matched (match_repeating_body k ms1 parser_node tokens i)
                     (match_repeating_body k ms2 parser_node tokens i)"
proof -
  have "rel_loop
          (repeating_loop k (\<lambda>ts. ms1 (lexeme (token parser_node)) (children parser_node) ts (i + 1))
             [] tokens)
          (repeating_loop k (\<lambda>ts. ms2 (lexeme (token parser_node)) (children parser_node) ts (i + 1))
             [] tokens)"
    by (rule repeating_loop_rel) (simp_all add: assms)
  from rel_outcome_cases[OF this] show ?thesis
    by (auto simp: match_repeating_body_def similar_def dest: list_all2_lengthD)
qed

lemma match_one_or_more_body_rel:
  assumes "\<And>nm cs ts j. rel_matched_seq (ms1 nm cs ts j) (ms2 nm cs ts j)"
  shows "rel_matched (match_one_or_more_body k ms1 parser_node tokens i)
                     (match_one_or_more_body k ms2 parser_node tokens i)"
proof -
  let ?b1 = "\<lambda>ts. ms1 (lexeme (token parser_node)) (children parser_node) ts (i + 1)"
  let ?b2 = "\<lambda>ts. ms2 (lexeme (token parser_node)) (children parser_node) ts (i + 1)"
  from rel_outcome_cases[OF assms[of "lexeme (token parser_node)" "children parser_node"
                                     tokens "i + 1"]]
  show ?thesis
  proof (elim disjE conjE exE)
    assume "?b1 tokens = None" "?b2 tokens = None"
    then show ?thesis by (simp add: match_one_or_more_body_def)
  next
    fix e assume "?b1 tokens = Raise e" "?b2 tokens = Raise e"
    then show ?thesis by (simp add: match_one_or_more_body_def)
  next
    fix v1 v2
    assume r: "?b1 tokens = Return v1" "?b2 tokens = Return v2"
      and rel: "rel_prod (=) (rel_prod (list_all2 same_leaves) (=)) v1 v2"
    obtain ok1 f1 t1 where v1: "v1 = (ok1, f1, t1)" by (cases v1)
    obtain ok2 f2 t2 where v2: "v2 = (ok2, f2, t2)" by (cases v2)
    from rel v1 v2 have eq: "ok1 = ok2" "t1 = t2" and f: "list_all2 same_leaves f1 f2" by auto
    have "rel_loop (one_or_more_loop k ?b1 [] f1 t2) (one_or_more_loop k ?b2 [] f2 t2)"
      by (rule one_or_more_loop_rel) (simp_all add: assms f)
    from rel_outcome_cases[OF this] r v1 v2 eq show ?thesis
      by (auto simp: match_one_or_more_body_def similar_def dest: list_all2_lengthD)
  qed
qed

lemma finish_child_rel:
  assumes "rel_matched r1 r2"
  shows "rel_matched
     (case r1 of None \<Rightarrow> None | Some (Inl e) \<Rightarrow> Raise e
      | Some (Inr (ok, child, tokens')) \<Rightarrow> finish_nonterminal tok [] child tokens')
     (case r2 of None \<Rightarrow> None | Some (Inl e) \<Rightarrow> Raise e
      | Some (Inr (ok, child, tokens')) \<Rightarrow> finish_nonterminal tok [] child tokens')"
  using rel_outcome_cases[OF assms]
  by (auto intro!: finish_nonterminal_rel)

lemma finish_required_child_rel:
  assumes "rel_matched r1 r2"
  shows "rel_matched
     (case r1 of None \<Rightarrow> None | Some (Inl e) \<Rightarrow> Raise e
      | Some (Inr (ok, child, tokens')) \<Rightarrow>
          if \<not> ok then Raise (SyntaxError NotAtLeastOnce)
          else finish_nonterminal tok [] child tokens')
     (case r2 of None \<Rightarrow> None | Some (Inl e) \<Rightarrow> Raise e
      | Some (Inr (ok, child, tokens')) \<Rightarrow>
          if \<not> ok then Raise (SyntaxError NotAtLeastOnce)
          else finish_nonterminal tok [] child tokens')"
  using rel_outcome_cases[OF assms]
  by (auto intro!: finish_nonterminal_rel)

lemma finish_found_rel:
  assumes "rel_matched_seq r1 r2"
  shows "rel_matched
     (case r1 of None \<Rightarrow> None | Some (Inl e) \<Rightarrow> Raise e
      | Some (Inr (ok, found, tokens')) \<Rightarrow> finish_nonterminal tok found None tokens')
     (case r2 of None \<Rightarrow> None | Some (Inl e) \<Rightarrow> Raise e
      | Some (Inr (ok, found, tokens')) \<Rightarrow> finish_nonterminal tok found None tokens')"
  using rel_outcome_cases[OF assms]
  by (auto intro!: finish_nonterminal_rel)

lemma match_nonterminal_body_rel:
  assumes "\<And>node ts j. rel_matched (malt1 node ts j) (malt2 node ts j)"
    and "\<And>node ts j. rel_matched (mrep1 node ts j) (mrep2 node ts j)"
    and "\<And>node ts j. rel_matched (mopt1 node ts j) (mopt2 node ts j)"
    and "\<And>node ts j. rel_matched (matl1 node ts j) (matl2 node ts j)"
    and "\<And>nm cs ts j. rel_matched_seq (ms1 nm cs ts j) (ms2 nm cs ts j)"
    and "symbol_table p1 = symbol_table p2"
  shows "rel_matched (match_nonterminal_body malt1 mrep1 mopt1 matl1 ms1 p1 parser_node tokens i)
                     (match_nonterminal_body malt2 mrep2 mopt2 matl2 ms2 p2 parser_node tokens i)"
proof (cases "map_of (symbol_table p2) (base_name (lexeme (token parser_node)))")
  case None
  with assms(6) show ?thesis by (simp add: match_nonterminal_body_def)
next
  case (Some sy)
  show ?thesis
    unfolding match_nonterminal_body_def assms(6) Some option.case Let_def
    by (intro conjI impI finish_child_rel finish_required_child_rel finish_found_rel assms(1-5)
          | simp)+
qed

lemma match_body_rel:
  assumes "\<And>node ts j. rel_matched (mt1 node ts j) (mt2 node ts j)"
    and "\<And>node ts j. rel_matched (mnt1 node ts j) (mnt2 node ts j)"
  shows "rel_matched (match_body mt1 mnt1 parser_node tokens i)
                     (match_body mt2 mnt2 parser_node tokens i)"
  using assms by (simp add: match_body_def)

lemma match_rel:
  assumes "rules p1 = rules p2" and "symbol_table p1 = symbol_table p2"
  shows "rel_matched (match n p1 parser_node tokens i) (match n p2 parser_node tokens i)"
proof (induction n arbitrary: parser_node tokens i)
  case 0
  show ?case by simp
next
  case (Suc n)
  have ms: "rel_matched_seq (match_sequence n p1 nm cs ts j) (match_sequence n p2 nm cs ts j)"
    for nm cs ts j
    unfolding match_sequence_def by (rule match_sequence_body_rel) (rule Suc.IH)
  have mr: "rel_matched (match_rule n p1 r ts j) (match_rule n p2 r ts j)" for r ts j
    unfolding match_rule_def by (rule match_rule_body_rel) (rule Suc.IH, rule assms(1))
  have mt: "rel_matched (match_terminal n p1 node ts j) (match_terminal n p2 node ts j)"
    for node ts j
    unfolding match_terminal_def by (rule match_terminal_body_rel) (rule mr)
  have mnt: "rel_matched (match_nonterminal n p1 node ts j) (match_nonterminal n p2 node ts j)"
    for node ts j
    unfolding match_nonterminal_def match_alternate_def match_repeating_def
      match_optional_def match_one_or_more_def
    by (rule match_nonterminal_body_rel)
       (rule match_alternate_body_rel match_repeating_body_rel match_optional_body_rel
             match_one_or_more_body_rel ms assms(2); rule ms)+
  show ?case
    unfolding match_Suc by (rule match_body_rel) (rule mt mnt)+
qed

lemma parse_rel:
  assumes "rules p1 = rules p2" and "symbol_table p1 = symbol_table p2"
    and "start_rule p1 = start_rule p2"
  shows "rel_matched (parse n p1 tokens) (parse n p2 tokens)"
  using assms(3) match_rule_body_rel[OF match_rel[OF assms(1,2)] assms(1)]
  by (auto simp: parse_def match_rule_def split: option.splits)

text \<open>
  Two outcomes of \<^verbatim>\<open>parse\<close> agree up to collapsing: both have no result, or both raise the
  same error, or both return the same \<^verbatim>\<open>ok\<close> and the same remaining tokens, with no node
  in both or with nodes that have the same leaf tokens in the same order.
\<close>

definition same_parse :: "matched outcome \<Rightarrow> matched outcome \<Rightarrow> bool" where
  "same_parse r1 r2 =
     (case r1 of
        None \<Rightarrow> r2 = None
      | Some (Inl e) \<Rightarrow> r2 = Raise e
      | Some (Inr (ok, n1, ts)) \<Rightarrow>
         (case r2 of
            Some (Inr (ok', n2, ts')) \<Rightarrow>
              ok' = ok \<and> ts' = ts \<and>
              (case n1 of
                 None \<Rightarrow> n2 = None
               | Some a \<Rightarrow> (case n2 of Some b \<Rightarrow> leaves a = leaves b | None \<Rightarrow> False))
          | _ \<Rightarrow> False))"

lemma rel_matched_same_parse:
  assumes "rel_matched r1 r2"
  shows "same_parse r1 r2"
proof -
  from rel_outcome_cases[OF assms] show ?thesis
  proof (elim disjE conjE exE)
    assume "r1 = None" "r2 = None"
    then show ?thesis by (simp add: same_parse_def)
  next
    fix e assume "r1 = Raise e" "r2 = Raise e"
    then show ?thesis by (simp add: same_parse_def)
  next
    fix v1 v2
    assume r: "r1 = Return v1" "r2 = Return v2"
      and rel: "rel_prod (=) (rel_prod (rel_option similar) (=)) v1 v2"
    obtain ok1 n1 t1 where v1: "v1 = (ok1, n1, t1)" by (cases v1)
    obtain ok2 n2 t2 where v2: "v2 = (ok2, n2, t2)" by (cases v2)
    from rel v1 v2 have eq: "ok1 = ok2" "t1 = t2" and n: "rel_option similar n1 n2" by auto
    from n have "case n1 of None \<Rightarrow> n2 = None
                 | Some a \<Rightarrow> (case n2 of Some b \<Rightarrow> leaves a = leaves b | None \<Rightarrow> False)"
      by (cases n1; cases n2) (auto dest: similar_same_leaves simp: same_leaves_def)
    with r v1 v2 eq show ?thesis by (simp add: same_parse_def)
  qed
qed

text \<open>
  Claim C7 (collapsing preserves the sequence of leaf tokens). For every grammar, token
  list and fuel, the parse with \<^verbatim>\<open>collapse_tree\<close> enabled and the parse with it disabled
  end the same way, and when they return a tree the two trees have the same leaf tokens
  in the same order.
\<close>

theorem collapsing_preserves_leaf_tokens:
  "same_parse (parse n (self\<lparr>collapse_tree := True\<rparr>) tokens)
              (parse n (self\<lparr>collapse_tree := False\<rparr>) tokens)"
  by (rule rel_matched_same_parse) (rule parse_rel, simp_all)

text \<open>The grammar \<^verbatim>\<open>r := x; x := A;\<close>, where collapsing removes the node of \<^verbatim>\<open>x\<close>.\<close>

definition grammar_chain :: parser where
  "grammar_chain =
     \<lparr>rules =
        [(''r'', Some (rule_node SEQUENCE ''r'' [new_node (meta_token RULE ''x'')])),
         (''x'', Some (rule_node SEQUENCE ''x'' [new_node (meta_token TERM_sym ''A'')]))],
      symbol_table = [(''r'', EBNFNonTerminalSymbol ''r''), (''x'', EBNFNonTerminalSymbol ''x'')],
      start_rule = Some ''r'', collapse_tree = True,
      lexers = lexers new_parser, tokenizer_symbols = [''LITERAL'']\<rparr>"

theorem collapsing_preserves_leaf_tokens_witness:
  "same_parse
     (parse (Suc (Suc (Suc (Suc 0)))) (grammar_chain\<lparr>collapse_tree := True\<rparr>)
        [source_token ''A'' ''a''])
     (parse (Suc (Suc (Suc (Suc 0)))) (grammar_chain\<lparr>collapse_tree := False\<rparr>)
        [source_token ''A'' ''a''])
   \<and> parse (Suc (Suc (Suc (Suc 0)))) (grammar_chain\<lparr>collapse_tree := True\<rparr>)
        [source_token ''A'' ''a'']
     = Return (True,
         Some (CSTNode (Tok \<lparr>cls = Token, symbol = EBNFNonTerminalSymbol ''r'', lexeme = ''r'',
                              start = 0, finish = 0\<rparr>)
                 [CSTNode (Tok (source_token ''A'' ''a'')) []]), [])
   \<and> parse (Suc (Suc (Suc (Suc 0)))) (grammar_chain\<lparr>collapse_tree := False\<rparr>)
        [source_token ''A'' ''a'']
     = Return (True,
         Some (CSTNode (Tok \<lparr>cls = Token, symbol = EBNFNonTerminalSymbol ''r'', lexeme = ''r'',
                              start = 0, finish = 0\<rparr>)
                 [CSTNode (Tok \<lparr>cls = Token, symbol = EBNFNonTerminalSymbol ''x'',
                                  lexeme = ''x'', start = 0, finish = 0\<rparr>)
                    [CSTNode (Tok (source_token ''A'' ''a'')) []]]), [])"
proof -
  have t: "parse (Suc (Suc (Suc (Suc 0)))) (grammar_chain\<lparr>collapse_tree := True\<rparr>)
        [source_token ''A'' ''a'']
     = Return (True,
         Some (CSTNode (Tok \<lparr>cls = Token, symbol = EBNFNonTerminalSymbol ''r'', lexeme = ''r'',
                              start = 0, finish = 0\<rparr>)
                 [CSTNode (Tok (source_token ''A'' ''a'')) []]), [])"
    by (simp add: matcher_defs match_Suc symbol_defs meta_token_def source_token_def
          new_node_def rule_node_def grammar_chain_def base_name_def Let_def)
  have f: "parse (Suc (Suc (Suc (Suc 0)))) (grammar_chain\<lparr>collapse_tree := False\<rparr>)
        [source_token ''A'' ''a'']
     = Return (True,
         Some (CSTNode (Tok \<lparr>cls = Token, symbol = EBNFNonTerminalSymbol ''r'', lexeme = ''r'',
                              start = 0, finish = 0\<rparr>)
                 [CSTNode (Tok \<lparr>cls = Token, symbol = EBNFNonTerminalSymbol ''x'',
                                  lexeme = ''x'', start = 0, finish = 0\<rparr>)
                    [CSTNode (Tok (source_token ''A'' ''a'')) []]]), [])"
    by (simp add: matcher_defs match_Suc symbol_defs meta_token_def source_token_def
          new_node_def rule_node_def grammar_chain_def base_name_def Let_def)
  from collapsing_preserves_leaf_tokens
         [of "Suc (Suc (Suc (Suc 0)))" grammar_chain "[source_token ''A'' ''a'']"] t f
  show ?thesis by simp
qed

end
